theory Spec2Isabelle
  imports Complex_Main "HOL-Library.List_Lexorder" "HOL-Library.Product_Lexorder"
begin

section \<open>JavaScript values\<close>

text \<open>
  A JavaScript number is a double. The finite doubles are rationals; the model keeps the
  three non-finite values apart and computes on the finite ones exactly. The code below
  only ever tests a computed number against zero, takes its sign or compares it, and
  rounding changes none of these: the difference of two finite doubles is zero exactly
  when they are equal and has the sign of the exact difference. The two zeros are one
  value \<open>Fin 0\<close>.
\<close>

datatype jsnum = NaN | NInf | Fin rat | PInf

fun js_sub :: "jsnum \<Rightarrow> jsnum \<Rightarrow> jsnum" where
  "js_sub NaN _ = NaN"
| "js_sub _ NaN = NaN"
| "js_sub PInf PInf = NaN"
| "js_sub NInf NInf = NaN"
| "js_sub PInf _ = PInf"
| "js_sub NInf _ = NInf"
| "js_sub (Fin a) PInf = NInf"
| "js_sub (Fin a) NInf = PInf"
| "js_sub (Fin a) (Fin b) = Fin (a - b)"

fun js_add :: "jsnum \<Rightarrow> jsnum \<Rightarrow> jsnum" where
  "js_add NaN _ = NaN"
| "js_add _ NaN = NaN"
| "js_add PInf NInf = NaN"
| "js_add NInf PInf = NaN"
| "js_add PInf _ = PInf"
| "js_add NInf _ = NInf"
| "js_add (Fin a) PInf = PInf"
| "js_add (Fin a) NInf = NInf"
| "js_add (Fin a) (Fin b) = Fin (a + b)"

text \<open>The sign of a number: \<open>None\<close> for NaN.\<close>

fun js_sign :: "jsnum \<Rightarrow> int option" where
  "js_sign NaN = None"
| "js_sign NInf = Some (- 1)"
| "js_sign PInf = Some 1"
| "js_sign (Fin a) = Some (if a < 0 then - 1 else if a = 0 then 0 else 1)"

fun js_mul :: "jsnum \<Rightarrow> jsnum \<Rightarrow> jsnum" where
  "js_mul (Fin a) (Fin b) = Fin (a * b)"
| "js_mul x y =
     (case (js_sign x, js_sign y) of
        (Some s, Some t) \<Rightarrow>
          (if s * t = 0 then NaN else if 0 < s * t then PInf else NInf)
      | _ \<Rightarrow> NaN)"

fun js_div :: "jsnum \<Rightarrow> jsnum \<Rightarrow> jsnum" where
  "js_div NaN _ = NaN"
| "js_div _ NaN = NaN"
| "js_div (Fin a) (Fin b) =
     (if b = 0 then (if a = 0 then NaN else if 0 < a then PInf else NInf)
      else Fin (a / b))"
| "js_div (Fin a) _ = Fin 0"
| "js_div PInf (Fin b) = (if b < 0 then NInf else PInf)"
| "js_div NInf (Fin b) = (if b < 0 then PInf else NInf)"
| "js_div _ _ = NaN"

fun js_ceil :: "jsnum \<Rightarrow> jsnum" where
  "js_ceil (Fin a) = Fin (of_int \<lceil>a\<rceil>)"
| "js_ceil x = x"

text \<open>\<open>a < b\<close> on numbers: false as soon as one side is NaN.\<close>

fun js_less :: "jsnum \<Rightarrow> jsnum \<Rightarrow> bool" where
  "js_less NaN _ = False"
| "js_less _ NaN = False"
| "js_less NInf NInf = False"
| "js_less NInf _ = True"
| "js_less _ NInf = False"
| "js_less PInf _ = False"
| "js_less _ PInf = True"
| "js_less (Fin a) (Fin b) = (a < b)"

text \<open>\<open>Math.max\<close> and \<open>Math.min\<close> of two numbers, and \<open>===\<close> on numbers.\<close>

definition js_max :: "jsnum \<Rightarrow> jsnum \<Rightarrow> jsnum" where
  "js_max a b = (if a = NaN \<or> b = NaN then NaN else if js_less a b then b else a)"

definition js_min :: "jsnum \<Rightarrow> jsnum \<Rightarrow> jsnum" where
  "js_min a b = (if a = NaN \<or> b = NaN then NaN else if js_less b a then b else a)"

definition js_eq :: "jsnum \<Rightarrow> jsnum \<Rightarrow> bool" where
  "js_eq a b = (a \<noteq> NaN \<and> a = b)"

text \<open>
  The values a row can hold. A row object is its list of own properties; an object's
  keys are distinct, and a property is looked up by name. Only own properties are
  modelled (no prototype chain).
\<close>

datatype jsval = Undefined | Null | Bool bool | Num jsnum | Str string
  | Arr "jsval list" | Obj "(string \<times> jsval) list"

type_synonym row = "(string \<times> jsval) list"

definition row_get :: "row \<Rightarrow> string \<Rightarrow> jsval" where
  "row_get r k = (case map_of r k of Some v \<Rightarrow> v | None \<Rightarrow> Undefined)"

text \<open>\<open>v[k]\<close> for a value that is not null or undefined.\<close>

definition js_prop :: "jsval \<Rightarrow> string \<Rightarrow> jsval" where
  "js_prop v k = (case v of Obj ps \<Rightarrow> row_get ps k | _ \<Rightarrow> Undefined)"

text \<open>\<open>v == null\<close>, and the truth value of \<open>v\<close> in a condition.\<close>

definition nullish :: "jsval \<Rightarrow> bool" where
  "nullish v = (v = Null \<or> v = Undefined)"

fun truthy :: "jsval \<Rightarrow> bool" where
  "truthy Undefined = False"
| "truthy Null = False"
| "truthy (Bool b) = b"
| "truthy (Num n) = (n \<noteq> NaN \<and> n \<noteq> Fin 0)"
| "truthy (Str s) = (s \<noteq> [])"
| "truthy (Arr _) = True"
| "truthy (Obj _) = True"

subsection \<open>Functions of the language\<close>

text \<open>
  The functions of the JavaScript engine that the data source calls and that are not
  defined here (number formatting and parsing, the date parser, the collation of the
  locale, case mapping, trimming) are parameters: every theorem below holds for each
  choice of them.
\<close>

record builtins =
  numToString :: "jsnum \<Rightarrow> string"
  objToString :: "jsval \<Rightarrow> string"
  toNumber :: "string \<Rightarrow> jsnum"
  dateParse :: "string \<Rightarrow> jsnum"
  localeCompare :: "string \<Rightarrow> string \<Rightarrow> int"
  toLowerCase :: "string \<Rightarrow> string"
  trim :: "string \<Rightarrow> string"

text \<open>\<open>String(v)\<close>.\<close>

definition js_String :: "builtins \<Rightarrow> jsval \<Rightarrow> string" where
  "js_String bi v =
     (case v of
        Undefined \<Rightarrow> ''undefined''
      | Null \<Rightarrow> ''null''
      | Bool b \<Rightarrow> (if b then ''true'' else ''false'')
      | Num n \<Rightarrow> numToString bi n
      | Str s \<Rightarrow> s
      | _ \<Rightarrow> objToString bi v)"

text \<open>\<open>s.replace(/<[^>]*>/g, '')\<close>: a \<open><\<close> with a \<open>>\<close> after it is removed up to the first such \<open>>\<close>.\<close>

function strip_tags :: "string \<Rightarrow> string" where
  "strip_tags [] = []"
| "strip_tags (c # cs) =
     (if c = CHR ''<'' \<and> CHR ''>'' \<in> set cs
      then strip_tags (tl (dropWhile (\<lambda>x. x \<noteq> CHR ''>'') cs))
      else c # strip_tags cs)"
  by pat_completeness auto
termination
proof (relation "measure length")
  fix c :: char and cs :: string
  have "length (tl (dropWhile (\<lambda>x. x \<noteq> CHR ''>'') cs)) \<le> length cs"
    using length_dropWhile_le [of "\<lambda>x. x \<noteq> CHR ''>''" cs] by simp
  then show "(tl (dropWhile (\<lambda>x. x \<noteq> CHR ''>'') cs), c # cs) \<in> measure length"
    by simp
qed simp_all

text \<open>\<open>s.indexOf(q) !== -1\<close>.\<close>

fun starts_with :: "string \<Rightarrow> string \<Rightarrow> bool" where
  "starts_with s [] = True"
| "starts_with [] (q # qs) = False"
| "starts_with (c # cs) (q # qs) = (c = q \<and> starts_with cs qs)"

fun str_includes :: "string \<Rightarrow> string \<Rightarrow> bool" where
  "str_includes [] q = (q = [])"
| "str_includes (c # cs) q = (starts_with (c # cs) q \<or> str_includes cs q)"

text \<open>
  \<open>xs.slice(start, end)\<close>: each bound is truncated to an integer (NaN counts as 0), a
  negative bound counts from the end, and both are clamped to the array.
\<close>

definition slice_index :: "nat \<Rightarrow> jsnum \<Rightarrow> nat" where
  "slice_index len v =
     (case v of
        NaN \<Rightarrow> 0
      | NInf \<Rightarrow> 0
      | PInf \<Rightarrow> len
      | Fin r \<Rightarrow>
          (let i = (if 0 \<le> r then \<lfloor>r\<rfloor> else \<lceil>r\<rceil>)
           in if i < 0 then nat (max (int len + i) 0) else min (nat i) len))"

definition js_slice :: "'a list \<Rightarrow> jsnum \<Rightarrow> jsnum \<Rightarrow> 'a list" where
  "js_slice xs s e =
     (let k = slice_index (length xs) s; f = slice_index (length xs) e
      in take (f - k) (drop k xs))"

text \<open>
  \<open>Array.prototype.sort(cmp)\<close>. The language requires a stable sort that reads the
  comparator's result as negative, positive, or (zero and NaN alike) equal. For a
  comparator that orders the elements consistently there is one such result, the one
  computed here by stable insertion; for a comparator that does not, the language leaves
  the order to the engine.
\<close>

definition js_pos :: "jsnum \<Rightarrow> bool" where
  "js_pos v = js_less (Fin 0) v"

fun insert_sorted :: "('a \<Rightarrow> 'a \<Rightarrow> jsnum) \<Rightarrow> 'a \<Rightarrow> 'a list \<Rightarrow> 'a list" where
  "insert_sorted cmp x [] = [x]"
| "insert_sorted cmp x (y # ys) =
     (if js_pos (cmp x y) then y # insert_sorted cmp x ys else x # y # ys)"

fun array_sort :: "('a \<Rightarrow> 'a \<Rightarrow> jsnum) \<Rightarrow> 'a list \<Rightarrow> 'a list" where
  "array_sort cmp [] = []"
| "array_sort cmp (x # xs) = insert_sorted cmp x (array_sort cmp xs)"

text \<open>
  A comparator is consistent on the elements when \<open>a\<close> is greater than \<open>b\<close> exactly if
  \<open>b\<close> is smaller than \<open>a\<close>, and not-greater is transitive. Then the elements are
  totally preordered and the result of the sort is determined. Columns that mix numbers,
  dates and text can break this: a number is compared with a number by value but with a
  text as text.
\<close>

definition js_neg :: "jsnum \<Rightarrow> bool" where
  "js_neg v = js_less v (Fin 0)"

definition consistent_on :: "('a \<Rightarrow> 'a \<Rightarrow> jsnum) \<Rightarrow> 'a list \<Rightarrow> bool" where
  "consistent_on cmp xs =
     list_all (\<lambda>a. list_all (\<lambda>b.
         (js_pos (cmp a b) \<longleftrightarrow> js_neg (cmp b a))
         \<and> list_all (\<lambda>d. \<not> js_pos (cmp a b) \<and> \<not> js_pos (cmp b d) \<longrightarrow> \<not> js_pos (cmp a d)) xs)
       xs) xs"

section \<open>Columns, query state and table configuration\<close>

text \<open>
  A column after the constructor and \<open>normalizeColumn\<close> have run: \<open>searchable\<close>,
  \<open>sortable\<close> and \<open>visible\<close> are \<open>False\<close> exactly when the property is the value
  \<open>false\<close> (the code tests \<open>!== false\<close>). \<open>render\<close> is present when \<open>col.render\<close> is
  a function; applied to the phase and the row it gives what \<open>_renderValue\<close> hands back,
  or \<open>None\<close> when the renderer throws.
\<close>

record column =
  key :: string
  isSyntheticKey :: bool
  searchable :: bool
  sortable :: bool
  visible :: bool
  render :: "(string \<Rightarrow> row \<Rightarrow> jsval option) option"

text \<open>One entry of \<open>state.sortOrders\<close>; an absent \<open>dir\<close> or \<open>direction\<close> is the empty string.\<close>

record sort_order =
  okey :: string
  odir :: string
  odirection :: string

record qstate =
  page :: jsnum
  pageSize :: jsnum
  pagingEnabled :: bool
  searchText :: string
  sortOrders :: "sort_order list"
  totalRows :: jsnum
  filters :: "(string \<times> jsval) list"

text \<open>
  One entry of \<open>filters.items\<close>; \<open>predicate\<close> is present when \<open>def.predicate\<close> is a
  function, and gives the truth value of what it returns for the row and the active value.
\<close>

record filter_def =
  fkey :: string
  ftype :: string
  predicate :: "(row \<Rightarrow> jsval \<Rightarrow> bool) option"

text \<open>
  What the data source reads of the table it belongs to. \<open>child_columns\<close> is the column
  list that \<open>_getChildColumnsForParent\<close> starts from for a parent row
  (\<open>childRows.getColumns(row)\<close>, else \<open>childRows.columns\<close>, else the table's columns),
  normalised.
\<close>

record table_cfg =
  filters_enabled :: bool
  filters_items :: "filter_def list"
  childRows_enabled :: bool
  childRows_dataKey :: string
  child_columns :: "row \<Rightarrow> column list"

definition getChildrenForRow :: "table_cfg \<Rightarrow> row \<Rightarrow> jsval list option" where
  "getChildrenForRow t r =
     (if \<not> childRows_enabled t then None
      else (case row_get r (childRows_dataKey t) of
              Arr vs \<Rightarrow> (if vs = [] then None else Some vs)
            | _ \<Rightarrow> None))"

definition getChildColumnsForParent :: "table_cfg \<Rightarrow> row \<Rightarrow> column list" where
  "getChildColumnsForParent t parentRow = filter visible (child_columns t parentRow)"

section \<open>LocalDataSource\<close>

record local_source =
  original :: "row list"
  table :: "table_cfg option"

text \<open>
  \<open>_attachOriginalIndex\<close>: a row that has no own property \<open>__dt_index\<close> gets its position
  in the array; a row that has one keeps it. The rows of one array are taken to be distinct
  objects.
\<close>

fun attachOriginalIndex :: "nat \<Rightarrow> row list \<Rightarrow> row list" where
  "attachOriginalIndex idx [] = []"
| "attachOriginalIndex idx (r # rs) =
     (if map_of r ''__dt_index'' \<noteq> None then r
      else r @ [(''__dt_index'', Num (Fin (of_nat idx)))])
     # attachOriginalIndex (Suc idx) rs"

definition setData :: "local_source \<Rightarrow> row list \<Rightarrow> local_source" where
  "setData src data = src\<lparr>original := attachOriginalIndex 0 data\<rparr>"

definition new_LocalDataSource :: "row list \<Rightarrow> table_cfg option \<Rightarrow> local_source" where
  "new_LocalDataSource data tbl = setData \<lparr>original = [], table = tbl\<rparr> data"

subsection \<open>Filters\<close>

definition hasActiveFilters :: "(string \<times> jsval) list \<Rightarrow> bool" where
  "hasActiveFilters activeFilters =
     list_ex (\<lambda>(k, v). v \<noteq> Undefined \<and> v \<noteq> Null \<and> v \<noteq> Str [] \<and> v \<noteq> Bool False)
       activeFilters"

text \<open>
  The body of the loop over the active filters, for one key: \<open>True\<close> where the loop goes
  on to the next key, \<open>False\<close> where it returns \<open>false\<close> for the row.
\<close>

definition filter_key_passes ::
  "builtins \<Rightarrow> filter_def list \<Rightarrow> row \<Rightarrow> string \<Rightarrow> jsval \<Rightarrow> bool" where
  "filter_key_passes bi filterDefs r k val =
     (let def = find (\<lambda>f. fkey f = k) filterDefs;
          is_bool = (case def of Some d \<Rightarrow> ftype d = ''bool'' | None \<Rightarrow> False)
      in if is_bool \<and> \<not> truthy val then True
         else if \<not> is_bool \<and> (val = Null \<or> val = Str [] \<or> val = Undefined) then True
         else (case (case def of Some d \<Rightarrow> predicate d | None \<Rightarrow> None) of
                 Some p \<Rightarrow> p r val
               | None \<Rightarrow>
                   (let cellValue = row_get r k
                    in if is_bool then truthy cellValue
                       else \<not> nullish cellValue \<and> js_String bi cellValue = js_String bi val)))"

definition filter_row ::
  "builtins \<Rightarrow> filter_def list \<Rightarrow> (string \<times> jsval) list \<Rightarrow> row \<Rightarrow> bool" where
  "filter_row bi filterDefs activeFilters r =
     list_all (\<lambda>(k, val). filter_key_passes bi filterDefs r k val) activeFilters"

definition apply_filters :: "builtins \<Rightarrow> local_source \<Rightarrow> qstate \<Rightarrow> row list" where
  "apply_filters bi src st =
     (case table src of
        Some t \<Rightarrow>
          (if hasActiveFilters (filters st) \<and> filters_enabled t
           then filter (filter_row bi (filters_items t) (filters st)) (original src)
           else original src)
      | None \<Rightarrow> original src)"

subsection \<open>Search\<close>

text \<open>
  \<open>getValue\<close>: the raw field for a column with a real key; otherwise the renderer's value
  for the phase, and null when there is no renderer, no table, or the renderer throws.
  Renderers and filter predicates are taken to be functions of their arguments, and the
  children of a row to be objects.
\<close>

definition getValue :: "table_cfg option \<Rightarrow> column \<Rightarrow> row \<Rightarrow> string \<Rightarrow> jsval" where
  "getValue tbl col r phase =
     (if key col \<noteq> [] \<and> \<not> isSyntheticKey col then row_get r (key col)
      else (case render col of
              Some f \<Rightarrow>
                (case tbl of
                   Some t \<Rightarrow> (case f phase r of Some v \<Rightarrow> v | None \<Rightarrow> Null)
                 | None \<Rightarrow> Null)
            | None \<Rightarrow> Null))"

definition value_matches :: "builtins \<Rightarrow> string \<Rightarrow> jsval \<Rightarrow> bool" where
  "value_matches bi q v =
     (\<not> nullish v \<and> str_includes (toLowerCase bi (js_String bi v)) q)"

definition parentMatch ::
  "builtins \<Rightarrow> table_cfg option \<Rightarrow> column list \<Rightarrow> string \<Rightarrow> row \<Rightarrow> bool" where
  "parentMatch bi tbl searchableCols q r =
     list_ex (\<lambda>col. value_matches bi q (getValue tbl col r ''search'')) searchableCols"

definition childMatch :: "builtins \<Rightarrow> table_cfg option \<Rightarrow> string \<Rightarrow> row \<Rightarrow> bool" where
  "childMatch bi tbl q r =
     (case tbl of
        None \<Rightarrow> False
      | Some t \<Rightarrow>
          (if \<not> childRows_enabled t then False
           else (case getChildrenForRow t r of
                   None \<Rightarrow> False
                 | Some children \<Rightarrow>
                     (let childCols = getChildColumnsForParent t r;
                          childSearchableCols =
                            filter (\<lambda>c. searchable c \<and> key c \<noteq> []) childCols
                      in if childSearchableCols = [] then False
                         else list_ex (\<lambda>child.
                                list_ex (\<lambda>col. value_matches bi q (js_prop child (key col)))
                                  childSearchableCols) children))))"

definition search_applies :: "builtins \<Rightarrow> qstate \<Rightarrow> column list \<Rightarrow> bool" where
  "search_applies bi st searchableCols =
     (searchText st \<noteq> [] \<and> trim bi (searchText st) \<noteq> [] \<and> searchableCols \<noteq> [])"

definition apply_search ::
  "builtins \<Rightarrow> local_source \<Rightarrow> qstate \<Rightarrow> column list \<Rightarrow> row list \<Rightarrow> row list" where
  "apply_search bi src st columns rs =
     (let searchableCols = filter searchable columns
      in if search_applies bi st searchableCols
         then (let q = toLowerCase bi (searchText st)
               in filter (\<lambda>r. parentMatch bi (table src) searchableCols q r
                               \<or> childMatch bi (table src) q r) rs)
         else rs)"

subsection \<open>Sort\<close>

text \<open>\<open>order.dir || order.direction || 'asc'\<close>, compared with \<open>'desc'\<close> in lower case.\<close>

definition dirMult :: "builtins \<Rightarrow> sort_order \<Rightarrow> jsnum" where
  "dirMult bi order =
     (let d = (if odir order \<noteq> [] then odir order
               else if odirection order \<noteq> [] then odirection order
               else ''asc'')
      in if toLowerCase bi d = ''desc'' then Fin (- 1) else Fin 1)"

text \<open>
  The loop that builds \<open>sortSpecs\<close>: an order without a key, or whose key names no
  sortable column, is skipped; the column is the first sortable one with that key.
\<close>

fun build_sortSpecs ::
  "builtins \<Rightarrow> column list \<Rightarrow> sort_order list \<Rightarrow> (column \<times> jsnum) list" where
  "build_sortSpecs bi columns [] = []"
| "build_sortSpecs bi columns (order # orders) =
     (if okey order = [] then build_sortSpecs bi columns orders
      else (case find (\<lambda>c. sortable c \<and> key c = okey order) columns of
              Some col \<Rightarrow> (col, dirMult bi order) # build_sortSpecs bi columns orders
            | None \<Rightarrow> build_sortSpecs bi columns orders))"

text \<open>
  The precomputed key \<open>{t, v}\<close> of a row for one spec: \<open>t\<close> is one of \<open>'n'\<close>, \<open>'num'\<close>,
  \<open>'date'\<close>, \<open>'str'\<close> and fixes the type of \<open>v\<close>.
\<close>

datatype sort_key = KNull | KNum jsnum | KDate jsnum | KStr string

definition make_key :: "builtins \<Rightarrow> table_cfg option \<Rightarrow> column \<Rightarrow> row \<Rightarrow> sort_key" where
  "make_key bi tbl col r =
     (let v = getValue tbl col r ''sort''
      in if nullish v then KNull
         else (let s = strip_tags (js_String bi v); n = toNumber bi s
               in if n \<noteq> NaN then KNum n
                  else (let d = dateParse bi s
                        in if d \<noteq> NaN then KDate d else KStr s)))"

type_synonym keyed = "row \<times> sort_key list"

definition make_keyed ::
  "builtins \<Rightarrow> table_cfg option \<Rightarrow> (column \<times> jsnum) list \<Rightarrow> row \<Rightarrow> keyed" where
  "make_keyed bi tbl sortSpecs r = (r, map (\<lambda>spec. make_key bi tbl (fst spec) r) sortSpecs)"

text \<open>\<open>String(k.v)\<close> for a key.\<close>

definition key_string :: "builtins \<Rightarrow> sort_key \<Rightarrow> string" where
  "key_string bi k =
     (case k of KNull \<Rightarrow> ''null'' | KNum n \<Rightarrow> numToString bi n
      | KDate d \<Rightarrow> numToString bi d | KStr s \<Rightarrow> s)"

text \<open>
  One round of the comparator's loop, for the keys of one spec: \<open>Some r\<close> where the
  comparator returns \<open>r\<close>, \<open>None\<close> where the loop goes on to the next spec.
\<close>

definition compare_number :: "jsnum \<Rightarrow> jsnum \<Rightarrow> jsnum \<Rightarrow> jsnum option" where
  "compare_number dir a b =
     (let diff = js_sub a b in if diff \<noteq> Fin 0 then Some (js_mul diff dir) else None)"

definition compare_string :: "builtins \<Rightarrow> jsnum \<Rightarrow> string \<Rightarrow> string \<Rightarrow> jsnum option" where
  "compare_string bi dir a b =
     (let diffStr = localeCompare bi a b
      in if diffStr \<noteq> 0 then Some (js_mul (Fin (of_int diffStr)) dir) else None)"

definition compare_key :: "builtins \<Rightarrow> jsnum \<Rightarrow> sort_key \<Rightarrow> sort_key \<Rightarrow> jsnum option" where
  "compare_key bi dir ka kb =
     (if ka = KNull \<and> kb = KNull then None
      else if ka = KNull then Some (Fin 1)
      else if kb = KNull then Some (Fin (- 1))
      else (case (ka, kb) of
              (KNum a, KNum b) \<Rightarrow> compare_number dir a b
            | (KDate a, KDate b) \<Rightarrow> compare_number dir a b
            | (KStr a, KStr b) \<Rightarrow> compare_string bi dir a b
            | _ \<Rightarrow> compare_string bi dir (key_string bi ka) (key_string bi kb)))"

fun compare_keys ::
  "builtins \<Rightarrow> (column \<times> jsnum) list \<Rightarrow> sort_key list \<Rightarrow> sort_key list \<Rightarrow> jsnum option" where
  "compare_keys bi (spec # specs) (ka # kas) (kb # kbs) =
     (case compare_key bi (snd spec) ka kb of
        Some r \<Rightarrow> Some r
      | None \<Rightarrow> compare_keys bi specs kas kbs)"
| "compare_keys bi _ _ _ = None"

text \<open>\<open>typeof row.__dt_index === 'number' ? row.__dt_index : 0\<close>.\<close>

definition dt_index :: "row \<Rightarrow> jsnum" where
  "dt_index r = (case map_of r ''__dt_index'' of Some (Num n) \<Rightarrow> n | _ \<Rightarrow> Fin 0)"

definition comparator :: "builtins \<Rightarrow> (column \<times> jsnum) list \<Rightarrow> keyed \<Rightarrow> keyed \<Rightarrow> jsnum" where
  "comparator bi sortSpecs a b =
     (case compare_keys bi sortSpecs (snd a) (snd b) of
        Some r \<Rightarrow> r
      | None \<Rightarrow> js_sub (dt_index (fst a)) (dt_index (fst b)))"

text \<open>
  Rows whose keys are all null or finite numbers and whose index is a finite number are
  ranked by a list: per spec, null after every number and numbers by value times direction,
  then the index. The comparator orders such rows as their ranks are ordered.
\<close>

definition numeric_key :: "sort_key \<Rightarrow> bool" where
  "numeric_key k = (case k of KNull \<Rightarrow> True | KNum n \<Rightarrow> (case n of Fin x \<Rightarrow> True | _ \<Rightarrow> False)
                    | _ \<Rightarrow> False)"

definition finite_index :: "row \<Rightarrow> rat option" where
  "finite_index r = (case dt_index r of Fin n \<Rightarrow> Some n | _ \<Rightarrow> None)"

definition plain_keyed :: "(column \<times> jsnum) list \<Rightarrow> keyed \<Rightarrow> bool" where
  "plain_keyed sortSpecs a =
     (length (snd a) = length sortSpecs \<and> list_all numeric_key (snd a)
      \<and> finite_index (fst a) \<noteq> None)"

definition key_rank :: "jsnum \<Rightarrow> sort_key \<Rightarrow> bool \<times> rat" where
  "key_rank dir k =
     (case k of
        KNum n \<Rightarrow> (case n of Fin x \<Rightarrow> (False, (if dir = Fin 1 then x else - x)) | _ \<Rightarrow> (True, 0))
      | _ \<Rightarrow> (True, 0))"

fun row_ranks :: "(column \<times> jsnum) list \<Rightarrow> sort_key list \<Rightarrow> rat \<Rightarrow> (bool \<times> rat) list" where
  "row_ranks (spec # specs) (k # ks) i = key_rank (snd spec) k # row_ranks specs ks i"
| "row_ranks _ _ i = [(False, i)]"

definition rank_of :: "(column \<times> jsnum) list \<Rightarrow> keyed \<Rightarrow> (bool \<times> rat) list" where
  "rank_of sortSpecs a =
     row_ranks sortSpecs (snd a) (case finite_index (fst a) of Some n \<Rightarrow> n | None \<Rightarrow> 0)"

definition apply_sort ::
  "builtins \<Rightarrow> local_source \<Rightarrow> qstate \<Rightarrow> column list \<Rightarrow> row list \<Rightarrow> row list" where
  "apply_sort bi src st columns rs =
     (let sortSpecs = build_sortSpecs bi columns (sortOrders st)
      in if sortSpecs \<noteq> []
         then (let keyed = map (make_keyed bi (table src) sortSpecs) rs
               in map fst (array_sort (comparator bi sortSpecs) keyed))
         else rs)"

subsection \<open>getFilteredRows and load\<close>

text \<open>
  Filters, then search, then sort. (The function also looks up a column for
  \<open>state.sortKey\<close>, which it does not use afterwards.)
\<close>

definition getFilteredRows ::
  "builtins \<Rightarrow> local_source \<Rightarrow> qstate \<Rightarrow> column list \<Rightarrow> row list" where
  "getFilteredRows bi src st columns =
     apply_sort bi src st columns
       (apply_search bi src st columns (apply_filters bi src st))"

record load_result =
  res_rows :: "row list"
  res_total :: jsnum

text \<open>
  \<open>load\<close> as a call on the source: the value its promise resolves with, and the source
  after the call. The call builds new arrays (\<open>filter\<close>, \<open>map\<close>, \<open>slice\<close>) and sorts the
  keyed copy, so \<open>this.original\<close> is left as it was.
\<close>

definition load ::
  "builtins \<Rightarrow> local_source \<Rightarrow> qstate \<Rightarrow> column list \<Rightarrow> load_result \<times> local_source" where
  "load bi src st columns =
     (let rs = getFilteredRows bi src st columns;
          total = Fin (of_nat (length rs));
          paged = (if pagingEnabled st
                   then (let start = js_mul (js_sub (page st) (Fin 1)) (pageSize st);
                             endIdx = js_add start (pageSize st)
                         in js_slice rs start endIdx)
                   else rs)
      in (\<lparr>res_rows = paged, res_total = total\<rparr>, src))"

section \<open>AjaxLoadOnceDataSource\<close>

text \<open>
  What a fetch resolves with: an array of rows, or an object whose \<open>data\<close> property is an
  array of rows (\<open>Some\<close>) or something else (\<open>None\<close>).
\<close>

datatype response = RespArray "row list" | RespObject "row list option"

record once_source = local_source +
  loaded :: bool
  has_fetchFn :: bool
  ajax_transform :: "(response \<Rightarrow> response) option"

definition new_AjaxLoadOnceDataSource ::
  "bool \<Rightarrow> (response \<Rightarrow> response) option \<Rightarrow> table_cfg option \<Rightarrow> once_source" where
  "new_AjaxLoadOnceDataSource fetchFn transform tbl =
     \<lparr>original = attachOriginalIndex 0 [], table = tbl,
      loaded = False, has_fetchFn = fetchFn, ajax_transform = transform\<rparr>"

definition once_refresh :: "once_source \<Rightarrow> once_source" where
  "once_refresh src = src\<lparr>loaded := False\<rparr>"

text \<open>What leaves the source when \<open>load\<close> fetches: the caller's hook or a request to the URL.\<close>

datatype outbound = CallFetchFn | AjaxRequest

text \<open>
  \<open>load\<close> up to the point where it returns its promise: resolved at once from the local
  rows, or waiting for one outbound fetch.
\<close>

datatype load_step = Resolved load_result | Fetching outbound

definition local_part :: "once_source \<Rightarrow> local_source" where
  "local_part src = \<lparr>original = original src, table = table src\<rparr>"

definition once_load ::
  "builtins \<Rightarrow> once_source \<Rightarrow> qstate \<Rightarrow> column list \<Rightarrow> load_step \<times> once_source" where
  "once_load bi src st columns =
     (if loaded src then (Resolved (fst (load bi (local_part src) st columns)), src)
      else if has_fetchFn src then (Fetching CallFetchFn, src)
      else (Fetching AjaxRequest, src))"

text \<open>The rows that the callback of the fetch hands to \<open>setData\<close>.\<close>

definition array_or_empty :: "response \<Rightarrow> row list" where
  "array_or_empty r = (case r of RespArray rs \<Rightarrow> rs | RespObject _ \<Rightarrow> [])"

definition fetched_rows :: "once_source \<Rightarrow> response \<Rightarrow> row list" where
  "fetched_rows src json =
     (if has_fetchFn src then array_or_empty json
      else (case ajax_transform src of
              Some transform \<Rightarrow> array_or_empty (transform json)
            | None \<Rightarrow>
                (case json of
                   RespArray rs \<Rightarrow> rs
                 | RespObject d \<Rightarrow> (case d of Some rs \<Rightarrow> rs | None \<Rightarrow> []))))"

text \<open>
  The callback that runs when the fetch resolves: \<open>setData\<close>, \<open>_loaded = true\<close>, then the
  local \<open>load\<close> on the state and columns of the call. When the fetch fails the callback does
  not run and the source is left as it was.
\<close>

definition once_fetched ::
  "builtins \<Rightarrow> once_source \<Rightarrow> qstate \<Rightarrow> column list \<Rightarrow> response
     \<Rightarrow> load_result \<times> once_source" where
  "once_fetched bi src st columns json =
     (let src' = src\<lparr>original := attachOriginalIndex 0 (fetched_rows src json),
                      loaded := True\<rparr>
      in (fst (load bi (local_part src') st columns), src'))"

section \<open>AjaxDataSource\<close>

text \<open>
  A call of a function that the caller of the library supplies either throws or returns.
  A promise either rejects with an error or resolves with a value; a promise that stays
  pending for ever is not modelled.
\<close>

datatype 'a called = Throws jsval | Returns 'a

datatype 'a settled = Rejects jsval | Resolves 'a

text \<open>The parameters of a request, built from the state and the visible columns.\<close>

definition order_val :: "sort_order \<Rightarrow> jsval" where
  "order_val order =
     Obj ([(''key'', Str (okey order))]
          @ (if odir order \<noteq> [] then [(''dir'', Str (odir order))] else [])
          @ (if odirection order \<noteq> [] then [(''direction'', Str (odirection order))] else []))"

definition columnDefs :: "column list \<Rightarrow> jsval" where
  "columnDefs cols =
     Arr (map (\<lambda>col. Obj [(''key'', Str (key col)), (''searchable'', Bool (searchable col)),
                          (''orderable'', Bool (sortable col))])
            (filter visible cols))"

definition ajaxParams :: "qstate \<Rightarrow> column list \<Rightarrow> jsval" where
  "ajaxParams st cols =
     Obj [(''tinyDataTable'', Bool True),
          (''paging'',
             Obj [(''page'', Num (page st)),
                  (''length'', Num (if pagingEnabled st then pageSize st else Fin (- 1))),
                  (''start'', Num (if pagingEnabled st
                                  then js_mul (js_sub (page st) (Fin 1)) (pageSize st)
                                  else Fin 0)),
                  (''pagingEnabled'', Bool (pagingEnabled st))]),
          (''searchText'', Str (searchText st)),
          (''columns'', columnDefs cols),
          (''order'', Arr (map order_val (sortOrders st))),
          (''filters'', Obj (filters st))]"

text \<open>
  What \<open>load\<close> resolves with, as \<open>onLoad\<close> reads it: \<open>result.rows\<close> when it is an array,
  \<open>result.total\<close> when it is a number.
\<close>

record draw_result =
  result_rows :: "row list option"
  result_total :: "jsnum option"

definition is_number :: "jsval \<Rightarrow> bool" where
  "is_number v = (case v of Num _ \<Rightarrow> True | _ \<Rightarrow> False)"

text \<open>
  \<open>v.length\<close> for a value that is not null or undefined, the error that reading a property
  of null or undefined raises, and an element of the answer read as a row (an element that
  is no object has none of the properties that the table reads).
\<close>

definition js_length :: "jsval \<Rightarrow> jsval" where
  "js_length v =
     (case v of
        Arr vs \<Rightarrow> Num (Fin (of_nat (length vs)))
      | Str s \<Rightarrow> Num (Fin (of_nat (length s)))
      | _ \<Rightarrow> js_prop v ''length'')"

definition type_error :: jsval where
  "type_error = Obj [(''name'', Str ''TypeError'')]"

definition row_of :: "jsval \<Rightarrow> row" where
  "row_of v = (case v of Obj ps \<Rightarrow> ps | _ \<Rightarrow> [])"

text \<open>
  The options \<open>ajax.fetch\<close>, \<open>ajax.transform\<close>, \<open>ajax.buildParams\<close> and \<open>ajax.url\<close> of the
  source. The fetch hook is given by what \<open>Promise.resolve\<close> makes of the value it returns;
  \<open>ajax.url\<close> is a value or a function. \<open>ajax.method\<close> and \<open>ajax.headers\<close> are not
  modelled.
\<close>

datatype ajax_url = UrlValue jsval | UrlFunction "qstate \<Rightarrow> column list \<Rightarrow> jsval called"

record ajax_source =
  aj_fetch :: "(qstate \<Rightarrow> column list \<Rightarrow> jsval settled called) option"
  aj_transform :: "(jsval \<Rightarrow> jsval called) option"
  aj_buildParams :: "(jsval \<Rightarrow> jsval called) option"
  aj_url :: ajax_url

text \<open>
  \<open>_handleFetchResponse\<close>: the callback runs when the promise resolves; when \<open>transform\<close>
  throws, or the answer is null or undefined, the promise that \<open>load\<close> returns rejects.
\<close>

definition handleFetchResponse :: "ajax_source \<Rightarrow> jsval settled \<Rightarrow> draw_result settled" where
  "handleFetchResponse src r =
     (case r of
        Rejects err \<Rightarrow> Rejects err
      | Resolves json0 \<Rightarrow>
          (case (case aj_transform src of Some f \<Rightarrow> f json0 | None \<Rightarrow> Returns json0) of
             Throws err \<Rightarrow> Rejects err
           | Returns json \<Rightarrow>
               (if nullish json then Rejects type_error
                else (let rows = (case json of
                                    Arr vs \<Rightarrow> json
                                  | _ \<Rightarrow> (if truthy (js_prop json ''data'')
                                          then js_prop json ''data'' else Arr []));
                          total = (if is_number (js_prop json ''total'')
                                   then js_prop json ''total'' else js_length rows)
                      in Resolves
                           \<lparr>result_rows = (case rows of Arr vs \<Rightarrow> Some (map row_of vs)
                                           | _ \<Rightarrow> None),
                            result_total = (case total of Num n \<Rightarrow> Some n | _ \<Rightarrow> None)\<rparr>))))"

text \<open>
  \<open>load\<close>. Its first argument is \<open>_dtAjaxRequest\<close>, applied to the URL and the parameters:
  the call throws or returns the promise of the parsed answer. The fetch hook,
  \<open>buildParams\<close>, the \<open>url\<close> function and \<open>_dtAjaxRequest\<close> are called by \<open>load\<close> itself,
  so what they throw is thrown by \<open>load\<close>; \<open>transform\<close> is called inside the callback.
\<close>

definition ajax_load ::
  "(jsval \<Rightarrow> jsval \<Rightarrow> jsval settled called) \<Rightarrow> ajax_source \<Rightarrow> qstate \<Rightarrow> column list
     \<Rightarrow> draw_result settled called" where
  "ajax_load dtAjaxRequest src st cols =
     (case aj_fetch src of
        Some fetchFn \<Rightarrow>
          (case fetchFn st cols of
             Throws err \<Rightarrow> Throws err
           | Returns r \<Rightarrow> Returns (handleFetchResponse src r))
      | None \<Rightarrow>
          (case (case aj_buildParams src of
                   Some f \<Rightarrow> f (ajaxParams st cols)
                 | None \<Rightarrow> Returns (ajaxParams st cols)) of
             Throws err \<Rightarrow> Throws err
           | Returns params \<Rightarrow>
               (case (case aj_url src of
                        UrlFunction f \<Rightarrow> f st cols
                      | UrlValue u \<Rightarrow> Returns u) of
                  Throws err \<Rightarrow> Throws err
                | Returns u \<Rightarrow>
                    (case dtAjaxRequest u params of
                       Throws err \<Rightarrow> Throws err
                     | Returns r \<Rightarrow> Returns (handleFetchResponse src r)))))"

section \<open>TinyDataTable\<close>

datatype effect = Emit string jsval | OnErrorHook jsval | ConsoleError "jsval list"

text \<open>
  The table instance: what the data source reads of it, and the fields that the draw
  cycle, the paging, search, sort and filter handlers and the child rows use. The calls of
  \<open>_emit\<close>, of the \<open>onError\<close> hook and of \<open>console.error\<close> are recorded in \<open>effects\<close>;
  \<open>rendered\<close> is the row list last handed to \<open>_renderBody\<close>. The DOM itself is not
  modelled.
\<close>

record tiny_table = table_cfg +
  columns :: "column list"
  paging_enabled :: bool
  state :: qstate
  isAjax :: bool
  ajax_url :: string
  has_onError :: bool
  has_console :: bool
  drawSeq :: nat
  activeAbort :: "nat option"
  aborted :: "nat list"
  lastPageRows :: "row list"
  rendered :: "row list"
  childRows_lazyLoad :: bool
  childRows_rowId :: "(row \<Rightarrow> jsval) option"
  rowDataByKey :: "(string \<times> row) list"
  expandedRowKeys :: "string set"
  effects :: "effect list"

definition emit :: "string \<Rightarrow> jsval \<Rightarrow> tiny_table \<Rightarrow> tiny_table" where
  "emit event payload t = t\<lparr>effects := effects t @ [Emit event payload]\<rparr>"

definition state_val :: "qstate \<Rightarrow> jsval" where
  "state_val st =
     Obj [(''page'', Num (page st)), (''pageSize'', Num (pageSize st)),
          (''pagingEnabled'', Bool (pagingEnabled st)), (''searchText'', Str (searchText st)),
          (''sortOrders'', Arr (map order_val (sortOrders st))),
          (''totalRows'', Num (totalRows st)), (''filters'', Obj (filters st))]"

subsection \<open>draw\<close>

text \<open>
  \<open>draw\<close> up to the call of \<open>dataSource.load\<close>: the sequence counter is incremented and,
  on an Ajax table, the controller of the previous request is aborted and a new one
  takes its place. The result is the id of this draw and the table.
\<close>

definition draw_begin :: "tiny_table \<Rightarrow> nat \<times> tiny_table" where
  "draw_begin t =
     (let drawId = drawSeq t + 1;
          t1 = t\<lparr>drawSeq := drawId\<rparr>
      in (drawId,
          if isAjax t1
          then t1\<lparr>aborted := aborted t1 @ (case activeAbort t1 of Some i \<Rightarrow> [i] | None \<Rightarrow> []),
                  activeAbort := Some drawId\<rparr>
          else t1))"

definition result_rows_of :: "draw_result \<Rightarrow> row list" where
  "result_rows_of result = (case result_rows result of Some rs \<Rightarrow> rs | None \<Rightarrow> [])"

definition result_total_of :: "draw_result \<Rightarrow> jsnum" where
  "result_total_of result =
     (case result_total result of
        Some n \<Rightarrow> n | None \<Rightarrow> Fin (of_nat (length (result_rows_of result))))"

definition onLoad :: "tiny_table \<Rightarrow> nat \<Rightarrow> draw_result \<Rightarrow> tiny_table" where
  "onLoad t drawId result =
     (if isAjax t \<and> drawId \<noteq> drawSeq t then t
      else (let rs = result_rows_of result;
                total = result_total_of result;
                t1 = t\<lparr>state := (state t)\<lparr>totalRows := total\<rparr>, lastPageRows := rs\<rparr>;
                t2 = (if isAjax t1
                      then emit ''xhr'' (Obj [(''rows'', Arr (map Obj rs)), (''total'', Num total),
                                             (''state'', state_val (state t1))]) t1
                      else t1);
                t3 = t2\<lparr>rendered := rs\<rparr>
            in emit ''draw'' (state_val (state t3)) t3))"



definition error_status :: "jsval \<Rightarrow> jsval" where
  "error_status err = (if truthy err then js_prop err ''status'' else err)"

definition report_error :: "tiny_table \<Rightarrow> jsval \<Rightarrow> effect list" where
  "report_error t err =
     (let status = error_status err
      in if has_onError t then [OnErrorHook err]
         else if status \<noteq> Num (Fin 401) \<and> has_console t
         then [ConsoleError [Str ''TinyDataTable error:'', err]]
              @ (if truthy err \<and> truthy (js_prop err ''body'')
                 then [ConsoleError [Str ''Response body:'', js_prop err ''body'']] else [])
         else [])"





text \<open>What the \<open>load\<close> of a Local source resolves with, as \<open>onLoad\<close> reads it.\<close>

definition local_result :: "load_result \<Rightarrow> draw_result" where
  "local_result res = \<lparr>result_rows = Some (res_rows res), result_total = Some (res_total res)\<rparr>"

text \<open>The callback of the newest draw, run with the result of its load.\<close>

definition after_load :: "tiny_table \<Rightarrow> draw_result \<Rightarrow> tiny_table" where
  "after_load t result = onLoad t (drawSeq t) result"

subsection \<open>Paging, search, sort and filter handlers\<close>

text \<open>
  Each handler is modelled up to the end of the synchronous part of the \<open>draw\<close> it
  starts; the result of that draw arrives later through \<open>onLoad\<close>.
\<close>

definition goToPage :: "tiny_table \<Rightarrow> jsnum \<Rightarrow> tiny_table" where
  "goToPage t p =
     (if \<not> paging_enabled t then t
      else (let maxPage = js_max (Fin 1)
                            (js_ceil (js_div (totalRows (state t)) (pageSize (state t))));
                oldPage = page (state t);
                newPage = js_min (js_max (Fin 1) p) maxPage
            in if js_eq newPage oldPage then t
               else snd (draw_begin
                      (emit ''page'' (Obj [(''page'', Num newPage), (''oldPage'', Num oldPage)])
                         (t\<lparr>state := (state t)\<lparr>page := newPage\<rparr>\<rparr>)))))"

definition search :: "tiny_table \<Rightarrow> string \<Rightarrow> tiny_table" where
  "search t str =
     (let t1 = t\<lparr>state := (state t)\<lparr>searchText := str, page := Fin 1\<rparr>\<rparr>
      in snd (draw_begin (emit ''search'' (Obj [(''searchText'', Str str)]) t1)))"

text \<open>The handler of the page-size control; \<open>newSize\<close> is what \<open>parseInt\<close> gave.\<close>

definition onPageSizeChange :: "tiny_table \<Rightarrow> jsval \<Rightarrow> jsnum \<Rightarrow> tiny_table" where
  "onPageSizeChange t newPageSize newSize =
     (let oldSize = pageSize (state t)
      in if js_eq newSize oldSize then t
         else snd (draw_begin
                (emit ''length'' (Obj [(''pageSize'', newPageSize), (''oldPageSize'', Num oldSize)])
                   (t\<lparr>state := (state t)\<lparr>pageSize := newSize, page := Fin 1\<rparr>\<rparr>))))"

text \<open>\<open>obj[k] = v\<close> on a list of properties.\<close>

fun obj_set :: "(string \<times> jsval) list \<Rightarrow> string \<Rightarrow> jsval \<Rightarrow> (string \<times> jsval) list" where
  "obj_set [] k v = [(k, v)]"
| "obj_set ((k', v') # ps) k v = (if k' = k then (k, v) # ps else (k', v') # obj_set ps k v)"

text \<open>The change handlers of a switch and of a select of the filters bar.\<close>

definition onBoolFilterChange :: "tiny_table \<Rightarrow> string \<Rightarrow> bool \<Rightarrow> tiny_table" where
  "onBoolFilterChange t k checked =
     snd (draw_begin
       (t\<lparr>state := (state t)\<lparr>filters := obj_set (filters (state t)) k (Bool checked),
                                page := Fin 1\<rparr>\<rparr>))"

definition onFilterChange :: "tiny_table \<Rightarrow> string \<Rightarrow> string \<Rightarrow> tiny_table" where
  "onFilterChange t k v =
     snd (draw_begin
       (t\<lparr>state := (state t)\<lparr>filters := obj_set (filters (state t)) k
                                             (if v = [] then Null else Str v),
                                page := Fin 1\<rparr>\<rparr>))"

text \<open>\<open>sortBy\<close>: the clicked key cycles none, asc, desc, none.\<close>

fun find_index_from :: "('a \<Rightarrow> bool) \<Rightarrow> nat \<Rightarrow> 'a list \<Rightarrow> nat option" where
  "find_index_from P i [] = None"
| "find_index_from P i (x # xs) = (if P x then Some i else find_index_from P (Suc i) xs)"

definition nextDir_of :: "builtins \<Rightarrow> sort_order list \<Rightarrow> nat option \<Rightarrow> string option" where
  "nextDir_of bi orders index =
     (let currentDir =
            (case index of
               None \<Rightarrow> []
             | Some j \<Rightarrow>
                 (let d = (if odir (orders ! j) \<noteq> [] then odir (orders ! j)
                           else odirection (orders ! j))
                  in if d \<noteq> [] then toLowerCase bi d else []))
      in if currentDir = [] then Some ''asc''
         else if currentDir = ''asc'' then Some ''desc''
         else None)"

definition nextOrders_of ::
  "sort_order list \<Rightarrow> nat option \<Rightarrow> string \<Rightarrow> string option \<Rightarrow> bool \<Rightarrow> sort_order list" where
  "nextOrders_of orders index k nextDir appendMode =
     (if \<not> appendMode
      then (case nextDir of
              Some d \<Rightarrow> [\<lparr>okey = k, odir = d, odirection = []\<rparr>]
            | None \<Rightarrow> [])
      else (case index of
              None \<Rightarrow>
                (case nextDir of
                   Some d \<Rightarrow> orders @ [\<lparr>okey = k, odir = d, odirection = []\<rparr>]
                 | None \<Rightarrow> orders)
            | Some j \<Rightarrow>
                (case nextDir of
                   Some d \<Rightarrow> orders[j := \<lparr>okey = k, odir = d, odirection = []\<rparr>]
                 | None \<Rightarrow> take j orders @ drop (Suc j) orders)))"

definition sortBy :: "builtins \<Rightarrow> tiny_table \<Rightarrow> string \<Rightarrow> bool \<Rightarrow> tiny_table" where
  "sortBy bi t k appendMode =
     (case find (\<lambda>c. key c = k) (columns t) of
        None \<Rightarrow> t
      | Some col \<Rightarrow>
          (if \<not> sortable col then t
           else (let prevOrders = sortOrders (state t);
                     index = find_index_from (\<lambda>order. okey order = k) 0 prevOrders;
                     nextDir = nextDir_of bi prevOrders index;
                     nextOrders = nextOrders_of prevOrders index k nextDir appendMode;
                     t1 = t\<lparr>state := (state t)\<lparr>sortOrders := nextOrders, page := Fin 1\<rparr>\<rparr>;
                     changed = Obj [(''key'', Str k),
                                    (''dir'', (case nextDir of Some d \<Rightarrow> Str d | None \<Rightarrow> Null))]
                 in snd (draw_begin
                      (emit ''order''
                         (Obj [(''sortOrders'', Arr (map order_val nextOrders)),
                               (''previousSortOrders'', Arr (map order_val prevOrders)),
                               (''changed'', changed), (''append'', Bool appendMode)])
                         t1)))))"

text \<open>Where the page number lies after a change, as \<open>goToPage\<close> and the pager compute it.\<close>

definition js_le :: "jsnum \<Rightarrow> jsnum \<Rightarrow> bool" where
  "js_le a b = (js_less a b \<or> js_eq a b)"

definition maxPage_of :: "qstate \<Rightarrow> jsnum" where
  "maxPage_of st = js_max (Fin 1) (js_ceil (js_div (totalRows st) (pageSize st)))"

definition page_ok :: "qstate \<Rightarrow> bool" where
  "page_ok st = (js_le (Fin 1) (page st) \<and> js_le (page st) (maxPage_of st))"

subsection \<open>Child rows\<close>

datatype js_error = TypeError | NoDataSource

text \<open>\<open>!v || v.length === 0\<close> for the child-data slot of a row.\<close>

definition slot_empty :: "jsval \<Rightarrow> bool" where
  "slot_empty v =
     (\<not> truthy v \<or>
      (case v of Arr vs \<Rightarrow> vs = [] | Obj ps \<Rightarrow> row_get ps ''length'' = Num (Fin 0)
       | _ \<Rightarrow> False))"

definition dataKey_of :: "tiny_table \<Rightarrow> string" where
  "dataKey_of t = (if childRows_dataKey t \<noteq> [] then childRows_dataKey t else ''children'')"

text \<open>
  \<open>_loadLazyChildren\<close> up to the promise it returns: already resolved with the empty
  array, or waiting for one request that carries the parent's id.
\<close>

datatype lazy_step = ResolvedEmpty | ChildRequest jsval

definition loadLazyChildren :: "tiny_table \<Rightarrow> string \<Rightarrow> lazy_step" where
  "loadLazyChildren t rowKey =
     (if \<not> childRows_lazyLoad t then ResolvedEmpty
      else (case map_of (rowDataByKey t) rowKey of
              None \<Rightarrow> ResolvedEmpty
            | Some parent \<Rightarrow>
                (let parentId = (case childRows_rowId t of
                                   Some f \<Rightarrow> f parent | None \<Rightarrow> row_get parent ''id'')
                 in if \<not> truthy parentId then ResolvedEmpty
                    else if \<not> isAjax t \<or> ajax_url t = [] then ResolvedEmpty
                    else ChildRequest parentId)))"

text \<open>What the request's callback makes of the answer: the array, or the empty array.\<close>

definition children_of_json :: "jsval \<Rightarrow> jsval list" where
  "children_of_json json = (case json of Arr vs \<Rightarrow> vs | _ \<Rightarrow> [])"

definition afterInsertChildRows :: "tiny_table \<Rightarrow> string \<Rightarrow> tiny_table" where
  "afterInsertChildRows t rowKey = emit ''childShown'' (Obj [(''rowKey'', Str rowKey)]) t"

text \<open>
  \<open>expandChildRows\<close> up to its return: nothing done, expanded at once, or expanded and
  waiting for the children. Reading the slot of a row that is not in \<open>_rowDataByKey\<close>
  raises a TypeError.
\<close>

datatype expand_step = NotExpanded | ExpandedNow | LoadingChildren lazy_step

definition expandChildRows ::
  "tiny_table \<Rightarrow> string \<Rightarrow> js_error + (expand_step \<times> tiny_table)" where
  "expandChildRows t rowKey =
     (if \<not> childRows_enabled t \<or> rowKey = [] then Inr (NotExpanded, t)
      else if childRows_lazyLoad t
      then (case map_of (rowDataByKey t) rowKey of
              None \<Rightarrow> Inl TypeError
            | Some r \<Rightarrow>
                (if slot_empty (row_get r (dataKey_of t))
                 then (let t1 = t\<lparr>expandedRowKeys := insert rowKey (expandedRowKeys t)\<rparr>
                       in Inr (LoadingChildren (loadLazyChildren t1 rowKey), t1))
                 else Inr (ExpandedNow,
                        afterInsertChildRows
                          (t\<lparr>expandedRowKeys := insert rowKey (expandedRowKeys t)\<rparr>) rowKey)))
      else Inr (ExpandedNow,
             afterInsertChildRows
               (t\<lparr>expandedRowKeys := insert rowKey (expandedRowKeys t)\<rparr>) rowKey))"

definition obj_set_row :: "(string \<times> row) list \<Rightarrow> string \<Rightarrow> row \<Rightarrow> (string \<times> row) list" where
  "obj_set_row m k r = map (\<lambda>(k', r'). if k' = k then (k', r) else (k', r')) m"

text \<open>
  The callback that runs with the children: they are stored in the slot of the row that
  the call read, taken here to be still the row under that key.
\<close>

definition childrenLoaded :: "tiny_table \<Rightarrow> string \<Rightarrow> jsval list \<Rightarrow> tiny_table" where
  "childrenLoaded t rowKey children =
     (case map_of (rowDataByKey t) rowKey of
        None \<Rightarrow> t
      | Some r \<Rightarrow>
          afterInsertChildRows
            (t\<lparr>rowDataByKey :=
                  obj_set_row (rowDataByKey t) rowKey (obj_set r (dataKey_of t) (Arr children))\<rparr>)
            rowKey)"

text \<open>The number of outbound child requests that a call of \<open>expandChildRows\<close> starts.\<close>

definition child_requests :: "js_error + (expand_step \<times> tiny_table) \<Rightarrow> nat" where
  "child_requests res =
     (case res of Inr (LoadingChildren (ChildRequest _), _) \<Rightarrow> 1 | _ \<Rightarrow> 0)"

definition collapseChildRows :: "tiny_table \<Rightarrow> string \<Rightarrow> tiny_table" where
  "collapseChildRows t rowKey =
     (if \<not> childRows_enabled t \<or> rowKey = [] then t
      else if rowKey \<notin> expandedRowKeys t then t
      else emit ''childHidden'' (Obj [(''rowKey'', Str rowKey)])
             (t\<lparr>expandedRowKeys := expandedRowKeys t - {rowKey}\<rparr>))"

subsection \<open>The constructor\<close>

text \<open>
  The options, and the data attributes of the table element, that the constructor reads
  for the fields above. The columns are given as \<open>normalizeColumn\<close> leaves them and the
  default sort as \<open>_normalizeDefaultSort\<close> leaves it; a filter item comes with its
  \<open>defaultValue\<close> (\<open>Undefined\<close> when it has none); a string that is absent is empty.
  \<open>opt_childRows_lazyLoad\<close> is the option \<open>childRows.lazyLoad\<close> that the README documents.
\<close>

record table_options =
  opt_columns :: "column list"
  opt_data :: "row list option"
  opt_ajax_url :: string
  opt_ajax_fetch :: bool
  opt_ajax_loadOnce :: bool
  dataset_url :: string
  dataset_loadonceUrl :: string
  opt_paging_enabled :: "bool option"
  opt_paging_pageSize :: "jsnum option"
  opt_defaultSort :: "sort_order list"
  opt_filters_enabled :: bool
  opt_filters_items :: "(filter_def \<times> jsval) list"
  opt_childRows_enabled :: bool
  opt_childRows_dataKey :: string
  opt_childRows_lazyLoad :: bool
  opt_childRows_rowId :: "(row \<Rightarrow> jsval) option"
  opt_childRows_columns :: "column list"
  opt_childRows_getColumns :: "(row \<Rightarrow> column list) option"
  opt_onError :: bool
  console_error :: bool

text \<open>
  The loop over the filter items, run when the filters are enabled: an item with a key and
  no type, or the type \<open>boolean\<close>, gets the type \<open>bool\<close>; a default value that is set makes
  the initial entry of the filter in the state.
\<close>

definition normalize_filter_type :: "filter_def \<Rightarrow> filter_def" where
  "normalize_filter_type f =
     (if fkey f = [] then f
      else if ftype f = [] \<or> ftype f = ''boolean'' then f\<lparr>ftype := ''bool''\<rparr>
      else f)"

fun initialFiltersState ::
  "(filter_def \<times> jsval) list \<Rightarrow> (string \<times> jsval) list \<Rightarrow> (string \<times> jsval) list" where
  "initialFiltersState [] acc = acc"
| "initialFiltersState ((f, defaultValue) # fs) acc =
     initialFiltersState fs
       (if fkey f = [] then acc
        else if ftype (normalize_filter_type f) = ''bool''
        then (if \<not> nullish defaultValue \<and> truthy defaultValue
              then obj_set acc (fkey f) (Bool True) else acc)
        else (if \<not> nullish defaultValue then obj_set acc (fkey f) defaultValue else acc))"

text \<open>
  The constructor up to its last statement, which is the call of \<open>draw\<close> for the first
  draw. \<open>this.childRows\<close> is built from \<open>enabled\<close>, \<open>dataKey\<close>, \<open>startExpanded\<close>, \<open>rowId\<close>,
  \<open>toggleOnRowClick\<close>, \<open>showToggleIcon\<close>, \<open>columns\<close> and \<open>getColumns\<close>: the option
  \<open>lazyLoad\<close> is not copied, and no other statement of the program sets
  \<open>this.childRows.lazyLoad\<close>, so the property reads as \<open>undefined\<close>. The constructor throws
  when there is neither a URL or fetch hook nor a data array.
\<close>

definition new_TinyDataTable :: "table_options \<Rightarrow> js_error + tiny_table" where
  "new_TinyDataTable opts =
     (let hasAjax = (dataset_url opts \<noteq> [] \<or> opt_ajax_url opts \<noteq> []);
          paging_on = (case opt_paging_enabled opts of Some b \<Rightarrow> b | None \<Rightarrow> hasAjax);
          size = (case opt_paging_pageSize opts of Some n \<Rightarrow> n | None \<Rightarrow> Fin 100);
          dataKey = (if opt_childRows_dataKey opts \<noteq> [] then opt_childRows_dataKey opts
                     else ''children'');
          items = (if opt_filters_enabled opts
                   then map (\<lambda>(f, defaultValue). normalize_filter_type f) (opt_filters_items opts)
                   else map fst (opt_filters_items opts));
          initial = (if opt_filters_enabled opts
                     then initialFiltersState (opt_filters_items opts) [] else []);
          ajaxUrl = (if dataset_loadonceUrl opts \<noteq> [] then dataset_loadonceUrl opts
                     else if dataset_url opts \<noteq> [] then dataset_url opts
                     else opt_ajax_url opts);
          useAjax = (ajaxUrl \<noteq> [] \<or> opt_ajax_fetch opts);
          loadOnce = (dataset_loadonceUrl opts \<noteq> [] \<or> opt_ajax_loadOnce opts)
      in if \<not> useAjax \<and> opt_data opts = None then Inl NoDataSource
         else Inr
           \<lparr>filters_enabled = opt_filters_enabled opts, filters_items = items,
            childRows_enabled = opt_childRows_enabled opts, childRows_dataKey = dataKey,
            child_columns =
              (case opt_childRows_getColumns opts of
                 Some getColumns \<Rightarrow> getColumns
               | None \<Rightarrow> (\<lambda>parentRow. if opt_childRows_columns opts \<noteq> []
                                       then opt_childRows_columns opts else opt_columns opts)),
            columns = opt_columns opts, paging_enabled = paging_on,
            state = \<lparr>page = Fin 1, pageSize = size, pagingEnabled = paging_on, searchText = [],
                     sortOrders = opt_defaultSort opts, totalRows = Fin 0, filters = initial\<rparr>,
            isAjax = (useAjax \<and> \<not> loadOnce),
            ajax_url = (if useAjax then ajaxUrl else opt_ajax_url opts),
            has_onError = opt_onError opts, has_console = console_error opts,
            drawSeq = 0, activeAbort = None, aborted = [], lastPageRows = [], rendered = [],
            childRows_lazyLoad = False, childRows_rowId = opt_childRows_rowId opts,
            rowDataByKey = [], expandedRowKeys = {}, effects = []\<rparr>)"

section \<open>A small instance for the examples\<close>

text \<open>
  The examples below need definite engine functions. These are exact on the strings the
  examples use: decimal numerals without sign, \<open>Infinity\<close>, lower-case ASCII words, and
  no dates.
\<close>

fun show_nat :: "nat \<Rightarrow> string" where
  "show_nat n =
     (if n < 10 then [char_of (48 + n)]
      else show_nat (n div 10) @ [char_of (48 + n mod 10)])"

declare show_nat.simps [simp del]

definition ex_numToString :: "jsnum \<Rightarrow> string" where
  "ex_numToString n =
     (case n of NaN \<Rightarrow> ''NaN'' | PInf \<Rightarrow> ''Infinity'' | NInf \<Rightarrow> ''-Infinity''
      | Fin r \<Rightarrow> (if r < 0 then CHR ''-'' # show_nat (nat \<lfloor>- r\<rfloor>) else show_nat (nat \<lfloor>r\<rfloor>)))"

definition is_digit :: "char \<Rightarrow> bool" where
  "is_digit c = (48 \<le> (of_char c :: nat) \<and> (of_char c :: nat) \<le> 57)"

fun read_nat :: "nat \<Rightarrow> string \<Rightarrow> nat" where
  "read_nat acc [] = acc"
| "read_nat acc (c # cs) = read_nat (10 * acc + (of_char c - 48)) cs"

definition ex_toNumber :: "string \<Rightarrow> jsnum" where
  "ex_toNumber s =
     (if s = [] then Fin 0
      else if s = ''Infinity'' then PInf
      else if s = ''-Infinity'' then NInf
      else if list_all is_digit s then Fin (of_nat (read_nat 0 s))
      else NaN)"

fun ex_localeCompare :: "string \<Rightarrow> string \<Rightarrow> int" where
  "ex_localeCompare [] [] = 0"
| "ex_localeCompare [] (d # ds) = - 1"
| "ex_localeCompare (c # cs) [] = 1"
| "ex_localeCompare (c # cs) (d # ds) =
     (if (of_char c :: nat) < of_char d then - 1
      else if (of_char d :: nat) < of_char c then 1
      else ex_localeCompare cs ds)"

definition ex_lower :: "char \<Rightarrow> char" where
  "ex_lower c =
     (if 65 \<le> (of_char c :: nat) \<and> (of_char c :: nat) \<le> 90 then char_of (of_char c + 32 :: nat)
      else c)"

definition is_space :: "char \<Rightarrow> bool" where
  "is_space c = ((of_char c :: nat) \<in> {9, 10, 11, 12, 13, 32})"

definition ex_trim :: "string \<Rightarrow> string" where
  "ex_trim s = rev (dropWhile is_space (rev (dropWhile is_space s)))"

definition ex_builtins :: builtins where
  "ex_builtins =
     \<lparr>numToString = ex_numToString, objToString = (\<lambda>v. ''[object Object]''),
      toNumber = ex_toNumber, dateParse = (\<lambda>s. NaN), localeCompare = ex_localeCompare,
      toLowerCase = map ex_lower, trim = ex_trim\<rparr>"

definition ex_column :: "string \<Rightarrow> column" where
  "ex_column k =
     \<lparr>key = k, isSyntheticKey = False, searchable = True, sortable = True, visible = True,
      render = None\<rparr>"

definition ex_state :: qstate where
  "ex_state =
     \<lparr>page = Fin 1, pageSize = Fin 100, pagingEnabled = False, searchText = [],
      sortOrders = [], totalRows = Fin 0, filters = []\<rparr>"

definition asc :: "string \<Rightarrow> sort_order" where
  "asc k = \<lparr>okey = k, odir = ''asc'', odirection = []\<rparr>"

definition desc :: "string \<Rightarrow> sort_order" where
  "desc k = \<lparr>okey = k, odir = ''desc'', odirection = []\<rparr>"

text \<open>The three rows of the specification's sorting scenario.\<close>

definition bob :: row where
  "bob = [(''id'', Str ''1''), (''name'', Str ''bob''), (''age'', Str ''30'')]"

definition ann :: row where
  "ann = [(''id'', Str ''2''), (''name'', Str ''ann''), (''age'', Str ''25'')]"

definition cid :: row where
  "cid = [(''id'', Str ''3''), (''name'', Str ''cid''), (''age'', Str ''25'')]"

definition people :: local_source where
  "people = new_LocalDataSource [bob, ann, cid] None"

definition people_columns :: "column list" where
  "people_columns = [ex_column ''id'', ex_column ''name'', ex_column ''age'']"

definition hidden_columns :: "column list" where
  "hidden_columns = map (\<lambda>c. c\<lparr>searchable := False\<rparr>) people_columns"

text \<open>
  The options of a per-page Ajax table with child rows, lazy loading asked for and an
  \<open>onError\<close> hook, and the table that the constructor makes of them, as it is at the call
  of its first draw.
\<close>

definition ex_options :: table_options where
  "ex_options =
     \<lparr>opt_columns = people_columns, opt_data = None, opt_ajax_url = ''/api/projects'',
      opt_ajax_fetch = False, opt_ajax_loadOnce = False, dataset_url = [],
      dataset_loadonceUrl = [], opt_paging_enabled = None, opt_paging_pageSize = Some (Fin 10),
      opt_defaultSort = [], opt_filters_enabled = False, opt_filters_items = [],
      opt_childRows_enabled = True, opt_childRows_dataKey = [], opt_childRows_lazyLoad = True,
      opt_childRows_rowId = None, opt_childRows_columns = [], opt_childRows_getColumns = None,
      opt_onError = True, console_error = True\<rparr>"

definition ex_table :: tiny_table where
  "ex_table =
     \<lparr>filters_enabled = False, filters_items = [], childRows_enabled = True,
      childRows_dataKey = ''children'', child_columns = (\<lambda>r. people_columns),
      columns = people_columns, paging_enabled = True,
      state = ex_state\<lparr>pagingEnabled := True, pageSize := Fin 10\<rparr>,
      isAjax = True, ajax_url = ''/api/projects'', has_onError = True, has_console = True,
      drawSeq = 0, activeAbort = None, aborted = [], lastPageRows = [], rendered = [],
      childRows_lazyLoad = False, childRows_rowId = None,
      rowDataByKey = [], expandedRowKeys = {}, effects = []\<rparr>"

text \<open>A parent row without children, and the answer of the server that holds it.\<close>

definition project :: row where
  "project = [(''id'', Str ''7''), (''name'', Str ''apollo'')]"

definition projects_result :: draw_result where
  "projects_result = \<lparr>result_rows = Some [project], result_total = Some (Fin 1)\<rparr>"

text \<open>
  That table after its first draw: the server has answered with the row, and the rendering
  has stored it under its key, which is \<open>String(row.id)\<close>.
\<close>

definition ex_drawn :: tiny_table where
  "ex_drawn =
     (after_load (snd (draw_begin ex_table)) projects_result)
       \<lparr>rowDataByKey := [(''7'', project)], expandedRowKeys := {}\<rparr>"








definition ex_once :: once_source where
  "ex_once = new_AjaxLoadOnceDataSource False None None"

text \<open>
  The table after its first draw, when the server has answered with a total of 25 rows,
  and a later answer with a total of 5.
\<close>

definition result25 :: draw_result where
  "result25 = \<lparr>result_rows = Some [bob, ann, cid], result_total = Some (Fin 25)\<rparr>"

definition table25 :: tiny_table where
  "table25 = after_load (snd (draw_begin ex_table)) result25"

definition result5 :: draw_result where
  "result5 = \<lparr>result_rows = Some [bob, ann], result_total = Some (Fin 5)\<rparr>"

definition first_result :: draw_result where
  "first_result = \<lparr>result_rows = Some [bob, cid], result_total = Some (Fin 17)\<rparr>"

definition second_result :: draw_result where
  "second_result = \<lparr>result_rows = Some [ann], result_total = Some (Fin 42)\<rparr>"

text \<open>A fourth person without an age, and the orders used in the examples.\<close>

definition dan :: row where
  "dan = [(''id'', Str ''4''), (''name'', Str ''dan'')]"

definition people4 :: local_source where
  "people4 = new_LocalDataSource [bob, dan, ann, cid] None"

definition by_age :: qstate where
  "by_age = ex_state\<lparr>sortOrders := [asc ''age'']\<rparr>"

definition by_age_desc :: qstate where
  "by_age_desc = ex_state\<lparr>sortOrders := [desc ''age'']\<rparr>"

text \<open>
  Two rows whose value is infinite, given to a source and then given again in the opposite
  order (the rows keep the index of the first time).
\<close>

definition row_a :: row where
  "row_a = [(''name'', Str ''a''), (''v'', Str ''Infinity'')]"

definition row_b :: row where
  "row_b = [(''name'', Str ''b''), (''v'', Str ''Infinity'')]"

definition seen_once :: local_source where
  "seen_once = new_LocalDataSource [row_a, row_b] None"

definition seen_again :: local_source where
  "seen_again = setData seen_once (rev (original seen_once))"

definition by_v :: qstate where
  "by_v = ex_state\<lparr>sortOrders := [asc ''v'']\<rparr>"

definition v_columns :: "column list" where
  "v_columns = [ex_column ''name'', ex_column ''v'']"

text \<open>
  Four rows of a column that mixes numbers and text, given to a source and then given
  again with the first row moved to the end.
\<close>

definition mixed_rows :: "row list" where
  "mixed_rows =
     [[(''name'', Str ''t''), (''v'', Str ''2'')], [(''name'', Str ''x''), (''v'', Str ''2'')],
      [(''name'', Str ''y''), (''v'', Str ''10'')], [(''name'', Str ''z''), (''v'', Str ''1a'')]]"

definition mixed_once :: local_source where
  "mixed_once = new_LocalDataSource mixed_rows None"

definition mixed_again :: local_source where
  "mixed_again = setData mixed_once (tl (original mixed_once) @ [hd (original mixed_once)])"

section \<open>Properties\<close>

subsection \<open>Failure of the load inside draw\<close>

lemma state_draw_begin [simp]: "state (snd (draw_begin t)) = state t"
  by (simp add: draw_begin_def Let_def)

lemma columns_draw_begin [simp]: "columns (snd (draw_begin t)) = columns t"
  by (simp add: draw_begin_def Let_def)

lemma effects_draw_begin [simp]: "effects (snd (draw_begin t)) = effects t"
  by (simp add: draw_begin_def Let_def)

lemma hooks_draw_begin [simp]:
  "has_onError (snd (draw_begin t)) = has_onError t"
  "has_console (snd (draw_begin t)) = has_console t"
  by (simp_all add: draw_begin_def Let_def)

lemma report_error_draw_begin [simp]:
  "report_error (snd (draw_begin t)) err = report_error t err"
  by (simp add: report_error_def draw_begin_def Let_def)


text \<open>
  The failures of the per-page source. What the fetch hook, \<open>buildParams\<close>, the \<open>url\<close>
  function or \<open>_dtAjaxRequest\<close> throws is thrown by \<open>load\<close>. A promise of the fetch hook or
  of the request that rejects, a \<open>transform\<close> that throws and an answer that is null or
  undefined make the promise of \<open>load\<close> reject.
\<close>

lemma ajax_load_throws:
  "aj_fetch src = Some f \<Longrightarrow> f st cols = Throws err
     \<Longrightarrow> ajax_load req src st cols = Throws err"
  "aj_fetch src = None \<Longrightarrow> aj_buildParams src = Some b \<Longrightarrow> b (ajaxParams st cols) = Throws err
     \<Longrightarrow> ajax_load req src st cols = Throws err"
  "aj_fetch src = None \<Longrightarrow> aj_buildParams src = None \<Longrightarrow> aj_url src = UrlFunction g
     \<Longrightarrow> g st cols = Throws err \<Longrightarrow> ajax_load req src st cols = Throws err"
  "aj_fetch src = None \<Longrightarrow> aj_buildParams src = None \<Longrightarrow> aj_url src = UrlValue u
     \<Longrightarrow> req u (ajaxParams st cols) = Throws err \<Longrightarrow> ajax_load req src st cols = Throws err"
  by (simp_all add: ajax_load_def)

lemma ajax_load_rejects:
  "aj_fetch src = Some f \<Longrightarrow> f st cols = Returns (Rejects err)
     \<Longrightarrow> ajax_load req src st cols = Returns (Rejects err)"
  "aj_fetch src = None \<Longrightarrow> aj_buildParams src = None \<Longrightarrow> aj_url src = UrlValue u
     \<Longrightarrow> req u (ajaxParams st cols) = Returns (Rejects err)
     \<Longrightarrow> ajax_load req src st cols = Returns (Rejects err)"
  "aj_fetch src = None \<Longrightarrow> aj_buildParams src = None \<Longrightarrow> aj_url src = UrlValue u
     \<Longrightarrow> req u (ajaxParams st cols) = Returns (Resolves json)
     \<Longrightarrow> aj_transform src = Some tr \<Longrightarrow> tr json = Throws err
     \<Longrightarrow> ajax_load req src st cols = Returns (Rejects err)"
  "aj_fetch src = None \<Longrightarrow> aj_buildParams src = None \<Longrightarrow> aj_url src = UrlValue u
     \<Longrightarrow> req u (ajaxParams st cols) = Returns (Resolves json)
     \<Longrightarrow> aj_transform src = None \<Longrightarrow> nullish json
     \<Longrightarrow> ajax_load req src st cols = Returns (Rejects type_error)"
  by (simp_all add: ajax_load_def handleFetchResponse_def)

lemma ajax_load_throws_or_returns:
  "(\<exists>err. ajax_load req src st cols = Throws err)
   \<or> (\<exists>r. ajax_load req src st cols = Returns (handleFetchResponse src r))"
  by (auto simp: ajax_load_def split: option.splits called.splits ajax_url.splits)




subsection \<open>Local load: total, idempotence, search\<close>

lemma length_insert_sorted: "length (insert_sorted cmp x ys) = Suc (length ys)"
  by (induction ys) auto

lemma length_array_sort: "length (array_sort cmp xs) = length xs"
  by (induction xs) (auto simp: length_insert_sorted)

lemma length_apply_sort: "length (apply_sort bi src st cols rs) = length rs"
  by (simp add: apply_sort_def Let_def length_array_sort)

lemma apply_filters_paging:
  "apply_filters bi src (st\<lparr>page := p, pageSize := ps\<rparr>) = apply_filters bi src st"
  by (simp add: apply_filters_def split: option.splits)

lemma apply_search_paging:
  "apply_search bi src (st\<lparr>page := p, pageSize := ps\<rparr>) cols rs = apply_search bi src st cols rs"
  by (simp add: apply_search_def search_applies_def Let_def)

lemma apply_sort_paging:
  "apply_sort bi src (st\<lparr>page := p, pageSize := ps\<rparr>) cols rs = apply_sort bi src st cols rs"
  by (simp add: apply_sort_def Let_def)

lemma getFilteredRows_paging:
  "getFilteredRows bi src (st\<lparr>page := p, pageSize := ps\<rparr>) cols = getFilteredRows bi src st cols"
  by (simp add: getFilteredRows_def apply_filters_paging apply_search_paging apply_sort_paging)

text \<open>
  Claim C3. The total that \<open>load\<close> of the Local source returns is the number of rows left
  after the filters and the search, counted before the page is cut out, and it is the same
  for every page number and page size in the state.
\<close>

theorem load_total_before_paging:
  "res_total (fst (load bi src st cols))
     = Fin (of_nat (length (apply_search bi src st cols (apply_filters bi src st))))
   \<and> res_total (fst (load bi src (st\<lparr>page := p, pageSize := ps\<rparr>) cols))
     = res_total (fst (load bi src st cols))"
  by (simp add: load_def Let_def getFilteredRows_paging)
     (simp add: getFilteredRows_def length_apply_sort)

theorem load_total_before_paging_witness:
  "res_total (fst (load ex_builtins people (ex_state\<lparr>pagingEnabled := True, page := Fin 2, pageSize := Fin 2\<rparr>) people_columns)) = Fin 3
   \<and> length (res_rows (fst (load ex_builtins people (ex_state\<lparr>pagingEnabled := True, page := Fin 2, pageSize := Fin 2\<rparr>) people_columns))) = 1"
proof -
  have a: "apply_search ex_builtins people (ex_state\<lparr>pagingEnabled := True\<rparr>) people_columns
             (apply_filters ex_builtins people (ex_state\<lparr>pagingEnabled := True\<rparr>))
           = original people"
    by (simp add: apply_search_def apply_filters_def search_applies_def ex_state_def people_def
        new_LocalDataSource_def setData_def)
  have b: "length (original people) = 3"
    by (simp add: people_def new_LocalDataSource_def setData_def)
  have c: "length (res_rows (fst (load ex_builtins people (ex_state\<lparr>pagingEnabled := True, page := Fin 2, pageSize := Fin 2\<rparr>) people_columns))) = 1"
    by code_simp
  show ?thesis
    using load_total_before_paging [of ex_builtins people "ex_state\<lparr>pagingEnabled := True\<rparr>"
        people_columns "Fin 2" "Fin 2"] a b c
    by simp
qed

text \<open>
  Claim C9. A call of \<open>load\<close> leaves the source as it was, so a second call with the same
  state and columns returns the same rows in the same order and the same total.
\<close>

theorem load_idempotent:
  "snd (load bi src st cols) = src
   \<and> load bi (snd (load bi src st cols)) st cols = load bi src st cols"
  by (simp add: load_def Let_def)

theorem load_idempotent_witness:
  "load ex_builtins (snd (load ex_builtins people (ex_state\<lparr>sortOrders := [asc ''age'']\<rparr>) people_columns))
      (ex_state\<lparr>sortOrders := [asc ''age'']\<rparr>) people_columns
   = load ex_builtins people (ex_state\<lparr>sortOrders := [asc ''age'']\<rparr>) people_columns
   \<and> map (\<lambda>r. row_get r ''name'')
        (res_rows (fst (load ex_builtins people (ex_state\<lparr>sortOrders := [asc ''age'']\<rparr>) people_columns)))
      = [Str ''ann'', Str ''cid'', Str ''bob'']"
proof -
  have e: "map (\<lambda>r. row_get r ''name'')
        (res_rows (fst (load ex_builtins people (ex_state\<lparr>sortOrders := [asc ''age'']\<rparr>) people_columns)))
      = [Str ''ann'', Str ''cid'', Str ''bob'']"
    by code_simp
  show ?thesis
    using load_idempotent [of ex_builtins people "ex_state\<lparr>sortOrders := [asc ''age'']\<rparr>" people_columns] e
    by simp
qed

text \<open>
  Claim C10. The search step runs only when the search text is not blank and some column
  is searchable. With an empty or blank search text, or with every column marked not
  searchable, \<open>getFilteredRows\<close> returns the filtered and sorted rows whatever the search
  text is, and \<open>load\<close> returns what it returns for the empty search text: a search over
  no searchable column keeps every row.
\<close>

theorem search_skipped:
  assumes "searchText st = [] \<or> trim bi (searchText st) = [] \<or> list_all (\<lambda>c. \<not> searchable c) cols"
  shows "getFilteredRows bi src st cols = apply_sort bi src st cols (apply_filters bi src st)
         \<and> load bi src st cols = load bi src (st\<lparr>searchText := []\<rparr>) cols"
proof -
  have na: "\<not> search_applies bi st (filter searchable cols)"
    using assms by (auto simp: search_applies_def filter_empty_conv list_all_iff)
  have s1: "apply_search bi src st cols rs = rs" for rs
    using na by (simp add: apply_search_def Let_def)
  have s2: "apply_search bi src (st\<lparr>searchText := []\<rparr>) cols rs = rs" for rs
    by (simp add: apply_search_def search_applies_def Let_def)
  have f: "apply_filters bi src (st\<lparr>searchText := []\<rparr>) = apply_filters bi src st"
    by (simp add: apply_filters_def split: option.splits)
  have o: "apply_sort bi src (st\<lparr>searchText := []\<rparr>) cols rs = apply_sort bi src st cols rs" for rs
    by (simp add: apply_sort_def Let_def)
  have g: "getFilteredRows bi src (st\<lparr>searchText := []\<rparr>) cols = getFilteredRows bi src st cols"
    by (simp add: getFilteredRows_def s1 s2 f o)
  show ?thesis
    by (simp add: getFilteredRows_def s1) (simp add: load_def g Let_def)
qed

theorem search_skipped_witness:
  "list_all (\<lambda>c. \<not> searchable c) hidden_columns
   \<and> getFilteredRows ex_builtins people (ex_state\<lparr>searchText := ''an''\<rparr>) hidden_columns
       = original people
   \<and> length (original people) = 3
   \<and> ex_trim ''  '' = []
   \<and> getFilteredRows ex_builtins people (ex_state\<lparr>searchText := ''  ''\<rparr>) people_columns
       = original people
   \<and> map (\<lambda>r. row_get r ''name'')
        (getFilteredRows ex_builtins people (ex_state\<lparr>searchText := ''an''\<rparr>) people_columns)
       = [Str ''ann'']"
proof -
  have h: "list_all (\<lambda>c. \<not> searchable c) hidden_columns"
    by (simp add: hidden_columns_def people_columns_def ex_column_def)
  have t: "ex_trim ''  '' = []"
    by (simp add: ex_trim_def is_space_def)
  have t': "trim ex_builtins (searchText (ex_state\<lparr>searchText := ''  ''\<rparr>)) = []"
    using t by (simp add: ex_builtins_def)
  have r: "apply_sort ex_builtins people (ex_state\<lparr>searchText := q\<rparr>) cols
             (apply_filters ex_builtins people (ex_state\<lparr>searchText := q\<rparr>)) = original people"
    for q cols
    by (simp add: apply_sort_def apply_filters_def ex_state_def people_def
        new_LocalDataSource_def setData_def)
  have l: "length (original people) = 3"
    by (simp add: people_def new_LocalDataSource_def setData_def)
  have m: "map (\<lambda>r. row_get r ''name'')
        (getFilteredRows ex_builtins people (ex_state\<lparr>searchText := ''an''\<rparr>) people_columns)
       = [Str ''ann'']"
    by code_simp
  show ?thesis
    using search_skipped [of "ex_state\<lparr>searchText := ''an''\<rparr>" ex_builtins hidden_columns people]
      search_skipped [of "ex_state\<lparr>searchText := ''  ''\<rparr>" ex_builtins people_columns people]
      h t t' r l m
    by simp
qed

subsection \<open>The page number after a change of the query state\<close>

lemma js_le_Fin [simp]: "js_le (Fin a) (Fin b) = (a \<le> b)"
  by (auto simp: js_le_def js_eq_def)

lemma js_max_Fin: "js_max (Fin a) (Fin b) = Fin (max a b)"
  by (simp add: js_max_def max_def)

lemma js_min_Fin: "js_min (Fin a) (Fin b) = Fin (min a b)"
  by (auto simp: js_min_def min_def)

lemma js_max_one_cases:
  assumes "p \<noteq> NaN"
  shows "js_max (Fin 1) p = PInf \<or> (\<exists>a. js_max (Fin 1) p = Fin a \<and> 1 \<le> a)"
  using assms by (cases p) (auto simp: js_max_def)

lemma maxPage_of_Fin:
  assumes "pageSize st = Fin ps" "0 < ps" "totalRows st = Fin n"
  shows "maxPage_of st = Fin (max 1 (of_int \<lceil>n / ps\<rceil>))"
  using assms by (simp add: maxPage_of_def js_max_Fin)

lemma page_ok_one:
  assumes "pageSize st = Fin ps" "0 < ps" "totalRows st = Fin n" "page st = Fin 1"
  shows "page_ok st"
  using assms by (simp add: page_ok_def maxPage_of_Fin)

lemma state_emit [simp]: "state (emit ev p t) = state t"
  by (simp add: emit_def)

lemma goToPage_ok:
  assumes "paging_enabled t" "pageSize (state t) = Fin ps" "0 < ps" "totalRows (state t) = Fin n"
    and "p \<noteq> NaN"
  shows "page_ok (state (goToPage t p))"
proof -
  define m :: rat where "m = max 1 (of_int \<lceil>n / ps\<rceil>)"
  have mo: "maxPage_of (state t) = Fin m"
    using maxPage_of_Fin [OF assms(2,3,4)] by (simp add: m_def)
  have m1: "1 \<le> m" by (simp add: m_def)
  obtain q where q: "js_min (js_max (Fin 1) p) (Fin m) = Fin q" "1 \<le> q" "q \<le> m"
  proof -
    from js_max_one_cases [OF assms(5)] show ?thesis
    proof
      assume "js_max (Fin 1) p = PInf"
      then have "js_min (js_max (Fin 1) p) (Fin m) = Fin m" by (simp add: js_min_def)
      then show ?thesis using m1 that by simp
    next
      assume "\<exists>a. js_max (Fin 1) p = Fin a \<and> 1 \<le> a"
      then obtain a where a: "js_max (Fin 1) p = Fin a" "1 \<le> a" by blast
      then have "js_min (js_max (Fin 1) p) (Fin m) = Fin (min a m)" by (simp add: js_min_Fin)
      then show ?thesis using a m1 that [of "min a m"] by simp
    qed
  qed
  have g: "goToPage t p =
             (if js_eq (Fin q) (page (state t)) then t
              else snd (draw_begin
                     (emit ''page'' (Obj [(''page'', Num (Fin q)), (''oldPage'', Num (page (state t)))])
                        (t\<lparr>state := (state t)\<lparr>page := Fin q\<rparr>\<rparr>))))"
    using assms(1) mo q(1) by (simp add: goToPage_def Let_def maxPage_of_def)
  show ?thesis
  proof (cases "js_eq (Fin q) (page (state t))")
    case True
    then have "page (state t) = Fin q" by (simp add: js_eq_def)
    then show ?thesis using True g q mo by (simp add: page_ok_def)
  next
    case False
    have "maxPage_of ((state t)\<lparr>page := Fin q\<rparr>) = Fin m"
      using mo by (simp add: maxPage_of_def)
    then show ?thesis using False g q by (simp add: page_ok_def)
  qed
qed

lemma state_after_load: "state (after_load t r) = (state t)\<lparr>totalRows := result_total_of r\<rparr>"
  by (simp add: after_load_def onLoad_def Let_def)

lemma page_one_after_load:
  assumes "page (state t) = Fin 1" "pageSize (state t) = Fin ps" "0 < ps"
    and "result_total_of r = Fin m"
  shows "page_ok (state (after_load t r))"
  using assms by (intro page_ok_one [of _ ps m]) (simp_all add: state_after_load)

lemma search_state:
  "state (search t str) = (state t)\<lparr>searchText := str, page := Fin 1\<rparr>"
  by (simp add: search_def Let_def)

lemma onBoolFilterChange_state:
  "state (onBoolFilterChange t k checked)
     = (state t)\<lparr>filters := obj_set (filters (state t)) k (Bool checked), page := Fin 1\<rparr>"
  by (simp add: onBoolFilterChange_def)

lemma onFilterChange_state:
  "state (onFilterChange t k v)
     = (state t)\<lparr>filters := obj_set (filters (state t)) k (if v = [] then Null else Str v),
                  page := Fin 1\<rparr>"
  by (simp add: onFilterChange_def)

lemma onPageSizeChange_state:
  "onPageSizeChange t raw newSize = t
   \<or> state (onPageSizeChange t raw newSize) = (state t)\<lparr>pageSize := newSize, page := Fin 1\<rparr>"
  by (simp add: onPageSizeChange_def Let_def)

lemma sortBy_state:
  "sortBy bi t k a = t
   \<or> (\<exists>orders. state (sortBy bi t k a) = (state t)\<lparr>sortOrders := orders, page := Fin 1\<rparr>)"
proof (cases "find (\<lambda>c. key c = k) (columns t)")
  case None
  then show ?thesis by (simp add: sortBy_def)
next
  case (Some col)
  show ?thesis
  proof (cases "sortable col")
    case False
    then show ?thesis using Some by (simp add: sortBy_def)
  next
    case True
    have "state (sortBy bi t k a)
            = (state t)\<lparr>sortOrders :=
                           nextOrders_of (sortOrders (state t))
                             (find_index_from (\<lambda>order. okey order = k) 0 (sortOrders (state t))) k
                             (nextDir_of bi (sortOrders (state t))
                                (find_index_from (\<lambda>order. okey order = k) 0 (sortOrders (state t))))
                             a,
                         page := Fin 1\<rparr>"
      using True Some by (simp add: sortBy_def Let_def)
    then show ?thesis by blast
  qed
qed

text \<open>
  Claim C7, as amended. Let the page size be positive and finite and the stored total
  \<open>state.totalRows\<close> be finite. After \<open>goToPage\<close> on a table with paging, for a page number
  that is not NaN, the page is at least 1 and at most the larger of 1 and
  \<open>ceil(total / pageSize)\<close>, where \<open>total\<close> is the total stored when \<open>goToPage\<close> is called,
  that of the last load that has returned. After \<open>search\<close>, after a sort that changes the
  state, after a filter change and after a change to another positive page size the page is
  1; so it lies in that range for the stored total, and also for every finite total that
  the load started by the handler returns and \<open>onLoad\<close> stores.
\<close>

theorem page_stays_in_range:
  assumes "pageSize (state t) = Fin ps" "0 < ps" "totalRows (state t) = Fin n"
  shows "(paging_enabled t \<and> p \<noteq> NaN \<longrightarrow> page_ok (state (goToPage t p)))
         \<and> (page (state (search t str)) = Fin 1 \<and> page_ok (state (search t str)))
         \<and> (sortBy bi t k a = t
              \<or> page (state (sortBy bi t k a)) = Fin 1 \<and> page_ok (state (sortBy bi t k a)))
         \<and> (page (state (onBoolFilterChange t fk checked)) = Fin 1
              \<and> page_ok (state (onBoolFilterChange t fk checked)))
         \<and> (page (state (onFilterChange t fk v)) = Fin 1
              \<and> page_ok (state (onFilterChange t fk v)))
         \<and> (0 < ns \<longrightarrow>
               onPageSizeChange t raw (Fin ns) = t
               \<or> page (state (onPageSizeChange t raw (Fin ns))) = Fin 1
                  \<and> page_ok (state (onPageSizeChange t raw (Fin ns))))
         \<and> (result_total_of r = Fin m \<longrightarrow>
               page_ok (state (after_load (search t str) r))
               \<and> (sortBy bi t k a = t \<or> page_ok (state (after_load (sortBy bi t k a) r)))
               \<and> page_ok (state (after_load (onBoolFilterChange t fk checked) r))
               \<and> page_ok (state (after_load (onFilterChange t fk v) r))
               \<and> (0 < ns \<longrightarrow>
                     onPageSizeChange t raw (Fin ns) = t
                     \<or> page_ok (state (after_load (onPageSizeChange t raw (Fin ns)) r))))"
proof -
  have g: "paging_enabled t \<and> p \<noteq> NaN \<longrightarrow> page_ok (state (goToPage t p))"
    using goToPage_ok [OF _ assms] by blast
  have s1: "page (state (search t str)) = Fin 1" "pageSize (state (search t str)) = Fin ps"
    "totalRows (state (search t str)) = Fin n"
    using assms by (simp_all add: search_state)
  have b1: "page (state (onBoolFilterChange t fk checked)) = Fin 1"
    "pageSize (state (onBoolFilterChange t fk checked)) = Fin ps"
    "totalRows (state (onBoolFilterChange t fk checked)) = Fin n"
    using assms by (simp_all add: onBoolFilterChange_state)
  have f1: "page (state (onFilterChange t fk v)) = Fin 1"
    "pageSize (state (onFilterChange t fk v)) = Fin ps"
    "totalRows (state (onFilterChange t fk v)) = Fin n"
    using assms by (simp_all add: onFilterChange_state)
  have o1: "sortBy bi t k a = t
            \<or> page (state (sortBy bi t k a)) = Fin 1
              \<and> pageSize (state (sortBy bi t k a)) = Fin ps
              \<and> totalRows (state (sortBy bi t k a)) = Fin n"
    using sortBy_state [of bi t k a] assms by auto
  have l1: "onPageSizeChange t raw (Fin ns) = t
            \<or> page (state (onPageSizeChange t raw (Fin ns))) = Fin 1
              \<and> pageSize (state (onPageSizeChange t raw (Fin ns))) = Fin ns
              \<and> totalRows (state (onPageSizeChange t raw (Fin ns))) = Fin n"
    using onPageSizeChange_state [of t raw "Fin ns"] assms by auto
  have s: "page_ok (state (search t str))"
    using s1 assms(2) by (intro page_ok_one [of _ ps n])
  have b: "page_ok (state (onBoolFilterChange t fk checked))"
    using b1 assms(2) by (intro page_ok_one [of _ ps n])
  have f: "page_ok (state (onFilterChange t fk v))"
    using f1 assms(2) by (intro page_ok_one [of _ ps n])
  have o: "sortBy bi t k a = t
           \<or> page (state (sortBy bi t k a)) = Fin 1 \<and> page_ok (state (sortBy bi t k a))"
    using o1 assms(2) page_ok_one [of "state (sortBy bi t k a)" ps n] by blast
  have l: "0 < ns \<longrightarrow>
             onPageSizeChange t raw (Fin ns) = t
             \<or> page (state (onPageSizeChange t raw (Fin ns))) = Fin 1
                \<and> page_ok (state (onPageSizeChange t raw (Fin ns)))"
    using l1 page_ok_one [of "state (onPageSizeChange t raw (Fin ns))" ns n] by blast
  have after: "page_ok (state (after_load (search t str) r))
               \<and> (sortBy bi t k a = t \<or> page_ok (state (after_load (sortBy bi t k a) r)))
               \<and> page_ok (state (after_load (onBoolFilterChange t fk checked) r))
               \<and> page_ok (state (after_load (onFilterChange t fk v) r))
               \<and> (0 < ns \<longrightarrow>
                     onPageSizeChange t raw (Fin ns) = t
                     \<or> page_ok (state (after_load (onPageSizeChange t raw (Fin ns)) r)))"
    if m: "result_total_of r = Fin m"
  proof -
    have as: "page_ok (state (after_load (search t str) r))"
      using page_one_after_load [OF s1(1,2) assms(2) m] .
    have ab: "page_ok (state (after_load (onBoolFilterChange t fk checked) r))"
      using page_one_after_load [OF b1(1,2) assms(2) m] .
    have af: "page_ok (state (after_load (onFilterChange t fk v) r))"
      using page_one_after_load [OF f1(1,2) assms(2) m] .
    have ao: "sortBy bi t k a = t \<or> page_ok (state (after_load (sortBy bi t k a) r))"
      using o1 page_one_after_load [of "sortBy bi t k a" ps r m] assms(2) m by blast
    have al: "0 < ns \<longrightarrow>
                onPageSizeChange t raw (Fin ns) = t
                \<or> page_ok (state (after_load (onPageSizeChange t raw (Fin ns)) r))"
      using l1 page_one_after_load [of "onPageSizeChange t raw (Fin ns)" ns r m] m by blast
    show ?thesis using as ab af ao al by blast
  qed
  show ?thesis using g s1(1) s b1(1) b f1(1) f o l after by blast
qed

theorem page_stays_in_range_witness:
  "page (state (goToPage table25 (Fin 7))) = Fin 3
   \<and> page_ok (state (goToPage table25 (Fin 7)))
   \<and> page (state (search table25 ''an'')) = Fin 1
   \<and> page_ok (state (search table25 ''an''))
   \<and> totalRows (state (after_load (search table25 ''an'') projects_result)) = Fin 1
   \<and> page_ok (state (after_load (search table25 ''an'') projects_result))"
proof -
  have st: "state table25 = (state ex_table)\<lparr>totalRows := Fin 25\<rparr>"
    by (simp add: table25_def state_after_load result25_def result_total_of_def)
  have h: "pageSize (state table25) = Fin 10" "(0::rat) < 10" "totalRows (state table25) = Fin 25"
    by (simp_all add: st ex_table_def ex_state_def)
  have pe: "paging_enabled table25 \<and> Fin 7 \<noteq> NaN"
    by (simp add: table25_def after_load_def onLoad_def draw_begin_def emit_def ex_table_def
        Let_def)
  have c: "\<lceil>5 / 2 :: rat\<rceil> = 3"
    by (rule ceiling_unique) simp_all
  have e: "page (state (goToPage table25 (Fin 7))) = Fin 3"
    using pe by (simp add: goToPage_def st ex_table_def ex_state_def Let_def js_max_Fin js_min_Fin
        js_eq_def c)
  have r: "result_total_of projects_result = Fin 1"
    by (simp add: projects_result_def result_total_of_def)
  have tot: "totalRows (state (after_load (search table25 ''an'') projects_result)) = Fin 1"
    by (simp add: state_after_load r)
  show ?thesis
    using page_stays_in_range [OF h, of "Fin 7" "''an''" _ _ _ _ _ _ _ _ projects_result 1]
      pe e r tot
    by simp
qed

text \<open>
  The bound of claim C7 as it was stated, \<open>ceil(total / pageSize)\<close> without the floor of
  1, fails on a table with no rows: after a search the page is 1 and the bound is 0.
\<close>

theorem page_above_ceiling_on_empty_table:
  "totalRows (state (search ex_table ''x'')) = Fin 0
   \<and> pageSize (state (search ex_table ''x'')) = Fin 10
   \<and> page (state (search ex_table ''x'')) = Fin 1
   \<and> js_ceil (js_div (totalRows (state (search ex_table ''x'')))
                       (pageSize (state (search ex_table ''x'')))) = Fin 0
   \<and> \<not> js_le (page (state (search ex_table ''x'')))
        (js_ceil (js_div (totalRows (state (search ex_table ''x'')))
                         (pageSize (state (search ex_table ''x'')))))"
  by (simp add: search_def ex_table_def ex_state_def Let_def)

text \<open>
  What the amended claim leaves open. \<open>onLoad\<close> stores the total that the load returns and
  does not touch the page: on a per-page table whose server then reports fewer rows, the
  page stays above the range until the next change. And \<open>goToPage\<close> called without a
  number stores NaN.
\<close>

lemma page_not_reduced_after_load:
  "page (state (goToPage table25 (Fin 3))) = Fin 3
   \<and> page_ok (state (goToPage table25 (Fin 3)))
   \<and> page (state (after_load (goToPage table25 (Fin 3)) result5)) = Fin 3
   \<and> totalRows (state (after_load (goToPage table25 (Fin 3)) result5)) = Fin 5
   \<and> maxPage_of (state (after_load (goToPage table25 (Fin 3)) result5)) = Fin 1
   \<and> \<not> page_ok (state (after_load (goToPage table25 (Fin 3)) result5))"
proof -
  have st: "state table25 = (state ex_table)\<lparr>totalRows := Fin 25\<rparr>"
    by (simp add: table25_def state_after_load result25_def result_total_of_def)
  have pe: "paging_enabled table25"
    by (simp add: table25_def after_load_def onLoad_def draw_begin_def emit_def ex_table_def
        Let_def)
  have c: "\<lceil>5 / 2 :: rat\<rceil> = 3"
    by (rule ceiling_unique) simp_all
  have d: "\<lceil>1 / 2 :: rat\<rceil> = 1"
    by (rule ceiling_unique) simp_all
  have e: "state (goToPage table25 (Fin 3)) = (state table25)\<lparr>page := Fin 3\<rparr>"
    using pe by (simp add: goToPage_def st ex_table_def ex_state_def Let_def js_max_Fin js_min_Fin
        js_eq_def c)
  have r: "result_total_of result5 = Fin 5"
    by (simp add: result5_def result_total_of_def)
  show ?thesis
    by (simp add: state_after_load e r st ex_table_def ex_state_def page_ok_def maxPage_of_def
        js_max_Fin c d)
qed

lemma goToPage_undefined_stores_NaN:
  "page (state (goToPage table25 NaN)) = NaN \<and> \<not> page_ok (state (goToPage table25 NaN))"
proof -
  have st: "state table25 = (state ex_table)\<lparr>totalRows := Fin 25\<rparr>"
    by (simp add: table25_def state_after_load result25_def result_total_of_def)
  have pe: "paging_enabled table25"
    by (simp add: table25_def after_load_def onLoad_def draw_begin_def emit_def ex_table_def
        Let_def)
  have e: "state (goToPage table25 NaN) = (state table25)\<lparr>page := NaN\<rparr>"
    using pe by (simp add: goToPage_def st ex_table_def ex_state_def Let_def js_max_def js_min_def
        js_eq_def)
  show ?thesis
    by (simp add: e page_ok_def js_le_def js_eq_def)
qed

text \<open>
  On a table with a Local source the load that \<open>goToPage\<close> starts returns the total of the
  source for the new state, which does not depend on the page: when the stored total is
  that of the source for the state, the page is in the range also after that load.
\<close>

lemma goToPage_local_load:
  assumes "paging_enabled t" "pageSize (state t) = Fin ps" "0 < ps" "p \<noteq> NaN"
    and "totalRows (state t) = res_total (fst (load bi src (state t) (columns t)))"
  shows "page_ok (state (after_load (goToPage t p)
           (local_result (fst (load bi src (state (goToPage t p)) (columns (goToPage t p)))))))"
proof -
  let ?n = "of_nat (length (getFilteredRows bi src (state t) (columns t))) :: rat"
  have tot: "res_total (fst (load bi src st (columns t))) = Fin (of_nat (length (getFilteredRows bi src st (columns t))))"
    for st
    by (simp add: load_def Let_def)
  have n: "totalRows (state t) = Fin ?n"
    using assms(5) by (simp add: tot)
  have ok: "page_ok (state (goToPage t p))"
    using goToPage_ok [OF assms(1,2,3) n assms(4)] .
  have cases: "goToPage t p = t
               \<or> (\<exists>q. state (goToPage t p) = (state t)\<lparr>page := q\<rparr>)"
  proof (cases "goToPage t p = t")
    case True
    then show ?thesis by simp
  next
    case False
    then have "state (goToPage t p)
                 = (state t)\<lparr>page := js_min (js_max (Fin 1) p)
                                    (js_max (Fin 1)
                                       (js_ceil (js_div (totalRows (state t)) (pageSize (state t)))))\<rparr>"
      by (simp add: goToPage_def Let_def split: if_splits)
    then show ?thesis by blast
  qed
  have cols: "columns (goToPage t p) = columns t"
    by (simp add: goToPage_def Let_def draw_begin_def emit_def)
  have same: "getFilteredRows bi src (state (goToPage t p)) (columns t)
                = getFilteredRows bi src (state t) (columns t)"
  proof -
    from cases show ?thesis
    proof
      assume "goToPage t p = t"
      then show ?thesis by simp
    next
      assume "\<exists>q. state (goToPage t p) = (state t)\<lparr>page := q\<rparr>"
      then obtain q where q: "state (goToPage t p) = (state t)\<lparr>page := q\<rparr>" by blast
      have "(state t)\<lparr>page := q\<rparr> = (state t)\<lparr>page := q, pageSize := pageSize (state t)\<rparr>"
        by simp
      then show ?thesis
        using getFilteredRows_paging [where bi = bi and src = src and st = "state t" and p = q
            and ps = "pageSize (state t)" and cols = "columns t"] q
        by simp
    qed
  qed
  have "result_total_of (local_result (fst (load bi src (state (goToPage t p)) (columns (goToPage t p)))))
          = totalRows (state (goToPage t p))"
  proof -
    have "totalRows (state (goToPage t p)) = totalRows (state t)"
      using cases by auto
    then show ?thesis
      using n by (simp add: local_result_def result_total_of_def cols tot same)
  qed
  then have "state (after_load (goToPage t p)
               (local_result (fst (load bi src (state (goToPage t p)) (columns (goToPage t p))))))
             = state (goToPage t p)"
    by (simp add: state_after_load)
  then show ?thesis using ok by simp
qed

subsection \<open>Draws that are overtaken\<close>

lemma draw_begin_id: "fst (draw_begin t) = drawSeq t + 1"
  by (simp add: draw_begin_def Let_def)

lemma draw_begin_seq: "drawSeq (snd (draw_begin t)) = drawSeq t + 1"
  by (simp add: draw_begin_def Let_def)

lemma draw_begin_isAjax: "isAjax (snd (draw_begin t)) = isAjax t"
  by (simp add: draw_begin_def Let_def)

lemma onLoad_stale: "isAjax t \<Longrightarrow> drawId \<noteq> drawSeq t \<Longrightarrow> onLoad t drawId r = t"
  by (simp add: onLoad_def)

lemma onLoad_seq: "drawSeq (onLoad t drawId r) = drawSeq t"
  by (simp add: onLoad_def Let_def emit_def)

lemma onLoad_isAjax: "isAjax (onLoad t drawId r) = isAjax t"
  by (simp add: onLoad_def Let_def emit_def)

lemma onLoad_current:
  assumes "drawId = drawSeq t"
  shows "totalRows (state (onLoad t drawId r)) = result_total_of r"
    and "rendered (onLoad t drawId r) = result_rows_of r"
    and "lastPageRows (onLoad t drawId r) = result_rows_of r"
  using assms
  by (simp_all add: onLoad_def Let_def emit_def result_total_of_def result_rows_of_def)

text \<open>
  Claim C2. On an Ajax table, once a draw has been started the result of every earlier draw
  is dropped when it arrives: \<open>onLoad\<close> leaves the table as it is, both while the newest
  draw is still waiting and after it has stored and rendered its own result. The result of
  the newest draw is the one stored in \<open>state.totalRows\<close> and rendered.
\<close>

theorem stale_draw_discarded:
  assumes "isAjax t"
  shows "(drawId \<le> drawSeq t \<longrightarrow> onLoad (snd (draw_begin t)) drawId r' = snd (draw_begin t))
         \<and> totalRows (state (onLoad (snd (draw_begin t)) (fst (draw_begin t)) r)) = result_total_of r
         \<and> rendered (onLoad (snd (draw_begin t)) (fst (draw_begin t)) r) = result_rows_of r
         \<and> (drawId \<le> drawSeq t \<longrightarrow>
               onLoad (onLoad (snd (draw_begin t)) (fst (draw_begin t)) r) drawId r'
                 = onLoad (snd (draw_begin t)) (fst (draw_begin t)) r)"
proof -
  let ?t1 = "snd (draw_begin t)"
  have aj: "isAjax ?t1" using assms by (simp add: draw_begin_isAjax)
  have cur: "fst (draw_begin t) = drawSeq ?t1"
    by (simp add: draw_begin_id draw_begin_seq)
  have a: "drawId \<le> drawSeq t \<longrightarrow> onLoad ?t1 drawId r' = ?t1"
    using aj by (auto intro!: onLoad_stale simp: draw_begin_seq)
  have d: "drawId \<le> drawSeq t \<longrightarrow>
             onLoad (onLoad ?t1 (fst (draw_begin t)) r) drawId r' = onLoad ?t1 (fst (draw_begin t)) r"
    using aj by (auto intro!: onLoad_stale simp: draw_begin_seq onLoad_seq onLoad_isAjax)
  show ?thesis
    using a d onLoad_current(1,2) [OF cur, of r] by blast
qed

theorem stale_draw_discarded_witness:
  "rendered (onLoad (onLoad (snd (draw_begin (snd (draw_begin ex_table)))) 2 second_result) 1 first_result)
     = [ann]
   \<and> totalRows (state (onLoad (onLoad (snd (draw_begin (snd (draw_begin ex_table)))) 2 second_result) 1 first_result))
     = Fin 42
   \<and> onLoad (snd (draw_begin (snd (draw_begin ex_table)))) 1 first_result
     = snd (draw_begin (snd (draw_begin ex_table)))"
proof -
  let ?t1 = "snd (draw_begin ex_table)"
  have aj: "isAjax ?t1" by (simp add: draw_begin_isAjax ex_table_def)
  have s: "drawSeq ?t1 = 1" by (simp add: draw_begin_seq ex_table_def)
  have i: "fst (draw_begin ?t1) = 2" by (simp add: draw_begin_id s)
  have r: "result_rows_of second_result = [ann]" "result_total_of second_result = Fin 42"
    by (simp_all add: second_result_def result_rows_of_def result_total_of_def)
  show ?thesis
    using stale_draw_discarded [OF aj, of 1 first_result second_result] s i r by simp
qed

text \<open>Any number of results of earlier draws, in any order, leave the table as it is.\<close>

lemma stale_results_change_nothing:
  assumes "isAjax t" "list_all (\<lambda>(drawId, r). drawId \<noteq> drawSeq t) stale"
  shows "foldl (\<lambda>t (drawId, r). onLoad t drawId r) t stale = t"
  using assms
proof (induction stale)
  case Nil
  show ?case by simp
next
  case (Cons x stale)
  obtain drawId r where x: "x = (drawId, r)" by (cases x)
  have "onLoad t drawId r = t"
    using Cons.prems x by (simp add: onLoad_def)
  then show ?case using Cons x by simp
qed

subsection \<open>The load-once source\<close>

text \<open>
  One call at a time, the source behaves as described: a call on a source that is not loaded
  starts one fetch; when the fetch resolves the rows are stored and the local \<open>load\<close>
  answers; later calls are answered locally without a fetch; \<open>refresh\<close> makes the next
  call fetch again.
\<close>

lemma load_once_sequential:
  assumes "\<not> loaded src"
  shows "\<exists>req. once_load bi src st cols = (Fetching req, src)"
    and "snd (once_fetched bi src st cols json)
           = src\<lparr>original := attachOriginalIndex 0 (fetched_rows src json), loaded := True\<rparr>"
    and "fst (once_fetched bi src st cols json)
           = fst (load bi \<lparr>original = attachOriginalIndex 0 (fetched_rows src json), table = table src\<rparr>
                    st cols)"
    and "once_load bi (snd (once_fetched bi src st cols json)) st' cols'
           = (Resolved (fst (load bi \<lparr>original = attachOriginalIndex 0 (fetched_rows src json),
                                        table = table src\<rparr> st' cols')),
              snd (once_fetched bi src st cols json))"
    and "\<exists>req. once_load bi (once_refresh (snd (once_fetched bi src st cols json))) st' cols'
           = (Fetching req, once_refresh (snd (once_fetched bi src st cols json)))"
  using assms
  by (simp_all add: once_load_def once_fetched_def once_refresh_def local_part_def Let_def)

text \<open>
  Claim C4 says that every call after the first goes without a fetch. A second call made
  while the fetch of the first is still pending finds \<open>_loaded\<close> unset and starts a second
  fetch.
\<close>

theorem load_once_fetches_while_pending:
  "\<not> loaded ex_once
   \<and> once_load ex_builtins ex_once ex_state people_columns = (Fetching AjaxRequest, ex_once)
   \<and> once_load ex_builtins (snd (once_load ex_builtins ex_once ex_state people_columns))
         ex_state people_columns
       = (Fetching AjaxRequest, ex_once)"
  by (simp add: once_load_def ex_once_def new_AjaxLoadOnceDataSource_def)

subsection \<open>Lazy child rows\<close>

lemma map_of_obj_set_row:
  "map_of m k = Some r \<Longrightarrow> map_of (obj_set_row m k r') k = Some r'"
  by (induction m) (auto simp: obj_set_row_def split: if_splits)

lemma row_get_obj_set: "row_get (obj_set r k v) k = v"
  by (induction r) (auto simp: row_get_def)

lemma dataKey_of_simps [simp]:
  "dataKey_of (t\<lparr>expandedRowKeys := e\<rparr>) = dataKey_of t"
  "dataKey_of (t\<lparr>rowDataByKey := m\<rparr>) = dataKey_of t"
  "dataKey_of (emit ev p t) = dataKey_of t"
  by (simp_all add: dataKey_of_def emit_def)

lemma new_TinyDataTable_childRows:
  assumes "new_TinyDataTable opts = Inr t0"
  shows "\<not> childRows_lazyLoad t0" "childRows_enabled t0 = opt_childRows_enabled opts"
    "rowDataByKey t0 = []" "drawSeq t0 = 0"
  using assms by (auto simp: new_TinyDataTable_def Let_def split: if_splits)

lemma ex_table_constructed: "new_TinyDataTable ex_options = Inr ex_table"
  by (simp add: new_TinyDataTable_def ex_options_def ex_table_def ex_state_def Let_def)

lemma childRows_after_load [simp]:
  "childRows_lazyLoad (after_load t r) = childRows_lazyLoad t"
  "childRows_enabled (after_load t r) = childRows_enabled t"
  by (simp_all add: after_load_def onLoad_def emit_def Let_def)

lemma childRows_draw_begin [simp]:
  "childRows_lazyLoad (snd (draw_begin t)) = childRows_lazyLoad t"
  "childRows_enabled (snd (draw_begin t)) = childRows_enabled t"
  by (simp_all add: draw_begin_def Let_def)

text \<open>
  Claim C5 against the program. A table is built by the constructor from any options,
  \<open>childRows.lazyLoad\<close> among them; its first draw has returned, the rows that the
  rendering has stored in \<open>_rowDataByKey\<close> are \<open>rows\<close> and the expanded keys are \<open>keys\<close>,
  whatever they are. Then \<open>this.childRows.lazyLoad\<close> is not set, \<open>_loadLazyChildren\<close>
  resolves with the empty array without a request, and \<open>expandChildRows\<close> takes the branch
  that expands at once: it starts no child request, and the table it returns differs from
  the one it was called on in the expanded keys and the event \<open>childShown\<close> only.
\<close>

theorem lazy_option_starts_no_request:
  assumes "new_TinyDataTable opts = Inr t0"
  shows "(let T = (after_load (snd (draw_begin t0)) result)
                    \<lparr>rowDataByKey := rows, expandedRowKeys := keys\<rparr>
          in \<not> childRows_lazyLoad T
             \<and> loadLazyChildren T rowKey = ResolvedEmpty
             \<and> child_requests (expandChildRows T rowKey) = 0
             \<and> expandChildRows T rowKey
                 = (if \<not> opt_childRows_enabled opts \<or> rowKey = [] then Inr (NotExpanded, T)
                    else Inr (ExpandedNow,
                           afterInsertChildRows
                             (T\<lparr>expandedRowKeys := insert rowKey keys\<rparr>) rowKey)))"
proof -
  let ?T = "(after_load (snd (draw_begin t0)) result)
              \<lparr>rowDataByKey := rows, expandedRowKeys := keys\<rparr>"
  have l: "\<not> childRows_lazyLoad ?T"
    using new_TinyDataTable_childRows(1) [OF assms] by simp
  have e: "childRows_enabled ?T = opt_childRows_enabled opts"
    using new_TinyDataTable_childRows(2) [OF assms] by simp
  have a: "loadLazyChildren ?T rowKey = ResolvedEmpty"
    using l by (simp add: loadLazyChildren_def)
  have b: "expandChildRows ?T rowKey
             = (if \<not> opt_childRows_enabled opts \<or> rowKey = [] then Inr (NotExpanded, ?T)
                else Inr (ExpandedNow,
                       afterInsertChildRows (?T\<lparr>expandedRowKeys := insert rowKey keys\<rparr>) rowKey))"
    using l e by (simp add: expandChildRows_def)
  have c: "child_requests (expandChildRows ?T rowKey) = 0"
    by (simp add: b child_requests_def)
  show ?thesis
    unfolding Let_def using l a b c by blast
qed

theorem lazy_option_starts_no_request_witness:
  "opt_childRows_lazyLoad ex_options
   \<and> new_TinyDataTable ex_options = Inr ex_table
   \<and> \<not> childRows_lazyLoad ex_drawn
   \<and> map_of (rowDataByKey ex_drawn) ''7'' = Some project
   \<and> slot_empty (row_get project ''children'')
   \<and> child_requests (expandChildRows ex_drawn ''7'') = 0
   \<and> expandChildRows ex_drawn ''7''
       = Inr (ExpandedNow,
              afterInsertChildRows (ex_drawn\<lparr>expandedRowKeys := {''7''}\<rparr>) ''7'')"
proof -
  have o: "opt_childRows_lazyLoad ex_options" "opt_childRows_enabled ex_options"
    by (simp_all add: ex_options_def)
  have m: "map_of (rowDataByKey ex_drawn) ''7'' = Some project"
    by (simp add: ex_drawn_def)
  have s: "slot_empty (row_get project ''children'')"
    by (simp add: project_def slot_empty_def row_get_def)
  show ?thesis
    using lazy_option_starts_no_request [OF ex_table_constructed,
        where result = projects_result and rows = "[(''7'', project)]" and keys = "{}"
          and rowKey = "''7''"] o m s
    by (simp add: ex_drawn_def Let_def child_requests_def ex_table_constructed)
qed

text \<open>
  The lazy branch of \<open>expandChildRows\<close>, for a table on which \<open>childRows.lazyLoad\<close> has
  been set from outside the constructor. On an Ajax table with a URL, for a row that is
  known under its key, has a truthy identity and an empty child-data slot, the call starts
  one child request carrying that identity; when the request brings back a non-empty array
  it is stored in the slot, and an expand after a collapse then starts no request.
\<close>

lemma lazy_branch_fetches_once:
  assumes en: "childRows_enabled t" "childRows_lazyLoad t" "rowKey \<noteq> []"
    and row: "map_of (rowDataByKey t) rowKey = Some r"
    and empty: "slot_empty (row_get r (dataKey_of t))"
    and ajax: "isAjax t" "ajax_url t \<noteq> []"
    and ident: "truthy (case childRows_rowId t of Some f \<Rightarrow> f r | None \<Rightarrow> row_get r ''id'')"
    and ne: "children \<noteq> []"
  shows "expandChildRows t rowKey
           = Inr (LoadingChildren
                    (ChildRequest (case childRows_rowId t of Some f \<Rightarrow> f r | None \<Rightarrow> row_get r ''id'')),
                  t\<lparr>expandedRowKeys := insert rowKey (expandedRowKeys t)\<rparr>)
         \<and> child_requests (expandChildRows t rowKey) = 1
         \<and> map_of (rowDataByKey
                     (childrenLoaded (t\<lparr>expandedRowKeys := insert rowKey (expandedRowKeys t)\<rparr>)
                        rowKey (children_of_json (Arr children)))) rowKey
             = Some (obj_set r (dataKey_of t) (Arr children))
         \<and> child_requests
              (expandChildRows
                 (collapseChildRows
                    (childrenLoaded (t\<lparr>expandedRowKeys := insert rowKey (expandedRowKeys t)\<rparr>)
                       rowKey (children_of_json (Arr children)))
                    rowKey)
                 rowKey) = 0"
proof -
  let ?t1 = "t\<lparr>expandedRowKeys := insert rowKey (expandedRowKeys t)\<rparr>"
  let ?t2 = "childrenLoaded ?t1 rowKey (children_of_json (Arr children))"
  let ?t3 = "collapseChildRows ?t2 rowKey"
  have l: "loadLazyChildren ?t1 rowKey
             = ChildRequest (case childRows_rowId t of Some f \<Rightarrow> f r | None \<Rightarrow> row_get r ''id'')"
    using en row ajax ident by (simp add: loadLazyChildren_def Let_def)
  have a: "expandChildRows t rowKey
           = Inr (LoadingChildren
                    (ChildRequest (case childRows_rowId t of Some f \<Rightarrow> f r | None \<Rightarrow> row_get r ''id'')),
                  ?t1)"
    using en row empty l by (simp add: expandChildRows_def Let_def)
  have b: "child_requests (expandChildRows t rowKey) = 1"
    by (simp add: a child_requests_def)
  have c: "map_of (rowDataByKey ?t2) rowKey = Some (obj_set r (dataKey_of t) (Arr children))"
    using row
    by (simp add: childrenLoaded_def children_of_json_def afterInsertChildRows_def emit_def
        map_of_obj_set_row)
  have c3: "map_of (rowDataByKey ?t3) rowKey = Some (obj_set r (dataKey_of t) (Arr children))"
    using c by (simp add: collapseChildRows_def emit_def)
  have k3: "dataKey_of ?t3 = dataKey_of t"
    using row
    by (simp add: collapseChildRows_def childrenLoaded_def afterInsertChildRows_def)
  have f3: "childRows_enabled ?t3" "childRows_lazyLoad ?t3"
    using en row
    by (simp_all add: collapseChildRows_def childrenLoaded_def afterInsertChildRows_def emit_def)
  have full: "\<not> slot_empty (Arr children)"
    using ne by (simp add: slot_empty_def)
  have d: "child_requests (expandChildRows ?t3 rowKey) = 0"
    using f3 en(3) c3 k3 full
    by (simp add: expandChildRows_def child_requests_def row_get_obj_set)
  show ?thesis using a b c d by simp
qed

text \<open>
  On that branch the children are requested again when the slot is still empty at the next
  expand: after a collapse while the first request is pending (the slot is written only by
  the callback of the request), and after a request that has brought back no children.
\<close>

lemma lazy_branch_fetches_again:
  assumes en: "childRows_enabled t" "childRows_lazyLoad t" "rowKey \<noteq> []"
    and row: "map_of (rowDataByKey t) rowKey = Some r"
    and empty: "slot_empty (row_get r (dataKey_of t))"
    and ajax: "isAjax t" "ajax_url t \<noteq> []"
    and ident: "truthy (case childRows_rowId t of Some f \<Rightarrow> f r | None \<Rightarrow> row_get r ''id'')"
    and ident': "truthy (case childRows_rowId t of
                           Some f \<Rightarrow> f (obj_set r (dataKey_of t) (Arr []))
                         | None \<Rightarrow> row_get (obj_set r (dataKey_of t) (Arr [])) ''id'')"
  shows "child_requests
           (expandChildRows
              (collapseChildRows (t\<lparr>expandedRowKeys := insert rowKey (expandedRowKeys t)\<rparr>) rowKey)
              rowKey) = 1"
    and "child_requests
           (expandChildRows
              (collapseChildRows
                 (childrenLoaded (t\<lparr>expandedRowKeys := insert rowKey (expandedRowKeys t)\<rparr>)
                    rowKey (children_of_json (Arr [])))
                 rowKey)
              rowKey) = 1"
proof -
  let ?t1 = "t\<lparr>expandedRowKeys := insert rowKey (expandedRowKeys t)\<rparr>"
  let ?t2 = "childrenLoaded ?t1 rowKey (children_of_json (Arr []))"
  have again: "child_requests (expandChildRows (collapseChildRows u rowKey) rowKey) = 1"
    if u: "childRows_enabled u" "childRows_lazyLoad u" "isAjax u" "ajax_url u \<noteq> []"
      "childRows_rowId u = childRows_rowId t" "dataKey_of u = dataKey_of t"
      "rowKey \<in> expandedRowKeys u"
      and m: "map_of (rowDataByKey u) rowKey = Some r'" "slot_empty (row_get r' (dataKey_of t))"
        "truthy (case childRows_rowId t of Some f \<Rightarrow> f r' | None \<Rightarrow> row_get r' ''id'')"
    for u r'
  proof -
    let ?c = "collapseChildRows u rowKey"
    have c: "?c = emit ''childHidden'' (Obj [(''rowKey'', Str rowKey)])
                    (u\<lparr>expandedRowKeys := expandedRowKeys u - {rowKey}\<rparr>)"
      using u(1,7) en(3) by (simp add: collapseChildRows_def)
    have f: "childRows_enabled ?c" "childRows_lazyLoad ?c" "isAjax ?c" "ajax_url ?c \<noteq> []"
      "childRows_rowId ?c = childRows_rowId t" "map_of (rowDataByKey ?c) rowKey = Some r'"
      using u m(1) by (simp_all add: c emit_def)
    have fk: "dataKey_of ?c = dataKey_of t"
      using u(6) by (simp add: c)
    have l: "loadLazyChildren (?c\<lparr>expandedRowKeys := insert rowKey (expandedRowKeys ?c)\<rparr>) rowKey
               = ChildRequest (case childRows_rowId t of Some f \<Rightarrow> f r' | None \<Rightarrow> row_get r' ''id'')"
      using f m(3) by (simp add: loadLazyChildren_def Let_def)
    have "expandChildRows ?c rowKey
            = Inr (LoadingChildren
                     (ChildRequest (case childRows_rowId t of Some f \<Rightarrow> f r' | None \<Rightarrow> row_get r' ''id'')),
                   ?c\<lparr>expandedRowKeys := insert rowKey (expandedRowKeys ?c)\<rparr>)"
      using f fk m(2) en(3) l by (simp add: expandChildRows_def Let_def)
    then show ?thesis by (simp add: child_requests_def)
  qed
  show "child_requests (expandChildRows (collapseChildRows ?t1 rowKey) rowKey) = 1"
    using en ajax row empty ident by (intro again [of ?t1 r]) simp_all
  have m2: "map_of (rowDataByKey ?t2) rowKey = Some (obj_set r (dataKey_of t) (Arr []))"
    using row
    by (simp add: childrenLoaded_def children_of_json_def afterInsertChildRows_def emit_def
        map_of_obj_set_row)
  have e2: "slot_empty (row_get (obj_set r (dataKey_of t) (Arr [])) (dataKey_of t))"
    by (simp add: row_get_obj_set slot_empty_def)
  show "child_requests (expandChildRows (collapseChildRows ?t2 rowKey) rowKey) = 1"
  proof (intro again [of ?t2 "obj_set r (dataKey_of t) (Arr [])"])
    show "map_of (rowDataByKey ?t2) rowKey = Some (obj_set r (dataKey_of t) (Arr []))"
      by (rule m2)
    show "slot_empty (row_get (obj_set r (dataKey_of t) (Arr [])) (dataKey_of t))"
      by (rule e2)
    show "truthy (case childRows_rowId t of Some f \<Rightarrow> f (obj_set r (dataKey_of t) (Arr []))
                  | None \<Rightarrow> row_get (obj_set r (dataKey_of t) (Arr [])) ''id'')"
      by (rule ident')
  qed (use en ajax row in \<open>simp_all add: childrenLoaded_def afterInsertChildRows_def emit_def dataKey_of_def\<close>)
qed

subsection \<open>The sort\<close>

lemma set_insert_sorted: "set (insert_sorted cmp x ys) = insert x (set ys)"
  by (induction ys) auto

lemma set_array_sort: "set (array_sort cmp xs) = set xs"
  by (induction xs) (auto simp: set_insert_sorted)

lemma sorted_insert_sorted:
  assumes asym: "\<And>a b. a \<in> insert x (set ys) \<Longrightarrow> b \<in> insert x (set ys)
                   \<Longrightarrow> js_pos (cmp a b) \<Longrightarrow> \<not> js_pos (cmp b a)"
    and trans: "\<And>a b d. a \<in> insert x (set ys) \<Longrightarrow> b \<in> insert x (set ys)
                   \<Longrightarrow> d \<in> insert x (set ys)
                   \<Longrightarrow> \<not> js_pos (cmp a b) \<Longrightarrow> \<not> js_pos (cmp b d) \<Longrightarrow> \<not> js_pos (cmp a d)"
    and sorted: "sorted_wrt (\<lambda>a b. \<not> js_pos (cmp a b)) ys"
  shows "sorted_wrt (\<lambda>a b. \<not> js_pos (cmp a b)) (insert_sorted cmp x ys)"
  using assms
proof (induction ys)
  case Nil
  show ?case by simp
next
  case (Cons y ys)
  have tail: "sorted_wrt (\<lambda>a b. \<not> js_pos (cmp a b)) ys"
    and head: "\<And>z. z \<in> set ys \<Longrightarrow> \<not> js_pos (cmp y z)"
    using Cons.prems(3) by simp_all
  have mem: "\<And>a. a \<in> insert x (set ys) \<Longrightarrow> a \<in> insert x (set (y # ys))"
    by auto
  show ?case
  proof (cases "js_pos (cmp x y)")
    case True
    have ih: "sorted_wrt (\<lambda>a b. \<not> js_pos (cmp a b)) (insert_sorted cmp x ys)"
    proof (rule Cons.IH)
      fix a b
      assume "a \<in> insert x (set ys)" "b \<in> insert x (set ys)" "js_pos (cmp a b)"
      then show "\<not> js_pos (cmp b a)"
        by (rule Cons.prems(1) [OF mem mem])
    next
      fix a b d
      assume "a \<in> insert x (set ys)" "b \<in> insert x (set ys)" "d \<in> insert x (set ys)"
        "\<not> js_pos (cmp a b)" "\<not> js_pos (cmp b d)"
      then show "\<not> js_pos (cmp a d)"
        by (rule Cons.prems(2) [OF mem mem mem])
    next
      show "sorted_wrt (\<lambda>a b. \<not> js_pos (cmp a b)) ys" by (rule tail)
    qed
    have yx: "\<not> js_pos (cmp y x)"
    proof (rule Cons.prems(1) [of x y])
      show "x \<in> insert x (set (y # ys))" by simp
      show "y \<in> insert x (set (y # ys))" by simp
      show "js_pos (cmp x y)" by (rule True)
    qed
    have "\<not> js_pos (cmp y z)" if "z \<in> set (insert_sorted cmp x ys)" for z
    proof -
      from that have "z = x \<or> z \<in> set ys" by (simp add: set_insert_sorted)
      then show ?thesis using yx head by blast
    qed
    then have "sorted_wrt (\<lambda>a b. \<not> js_pos (cmp a b)) (y # insert_sorted cmp x ys)"
      using ih by simp
    then show ?thesis using True by simp
  next
    case False
    have "\<not> js_pos (cmp x z)" if "z \<in> set ys" for z
    proof (rule Cons.prems(2) [of x y z])
      show "x \<in> insert x (set (y # ys))" by simp
      show "y \<in> insert x (set (y # ys))" by simp
      show "z \<in> insert x (set (y # ys))" using that by simp
      show "\<not> js_pos (cmp x y)" by (rule False)
      show "\<not> js_pos (cmp y z)" using head that by blast
    qed
    then have "sorted_wrt (\<lambda>a b. \<not> js_pos (cmp a b)) (x # y # ys)"
      using False head tail by simp
    then show ?thesis using False by simp
  qed
qed

lemma consistent_on_asym:
  assumes "consistent_on cmp xs" "a \<in> set xs" "b \<in> set xs" "js_pos (cmp a b)"
  shows "\<not> js_pos (cmp b a)"
proof -
  from assms(1) have "\<forall>a\<in>set xs. \<forall>b\<in>set xs. js_pos (cmp a b) \<longleftrightarrow> js_neg (cmp b a)"
    unfolding consistent_on_def list_all_iff by blast
  then have "js_neg (cmp b a)" using assms(2,3,4) by blast
  then show ?thesis
    by (cases "cmp b a") (simp_all add: js_neg_def js_pos_def)
qed

lemma consistent_on_trans:
  assumes "consistent_on cmp xs" "a \<in> set xs" "b \<in> set xs" "d \<in> set xs"
    "\<not> js_pos (cmp a b)" "\<not> js_pos (cmp b d)"
  shows "\<not> js_pos (cmp a d)"
proof -
  from assms(1) have "\<forall>a\<in>set xs. \<forall>b\<in>set xs. \<forall>d\<in>set xs.
      \<not> js_pos (cmp a b) \<and> \<not> js_pos (cmp b d) \<longrightarrow> \<not> js_pos (cmp a d)"
    unfolding consistent_on_def list_all_iff by blast
  then show ?thesis using assms(2-6) by blast
qed

lemma sorted_array_sort_aux:
  assumes "consistent_on cmp zs" "set xs \<subseteq> set zs"
  shows "sorted_wrt (\<lambda>a b. \<not> js_pos (cmp a b)) (array_sort cmp xs)"
  using assms(2)
proof (induction xs)
  case Nil
  then show ?case by simp
next
  case (Cons x xs)
  have mem: "\<And>a. a \<in> insert x (set (array_sort cmp xs)) \<Longrightarrow> a \<in> set zs"
    using Cons.prems by (auto simp: set_array_sort)
  have "sorted_wrt (\<lambda>a b. \<not> js_pos (cmp a b)) (insert_sorted cmp x (array_sort cmp xs))"
  proof (rule sorted_insert_sorted)
    fix a b
    assume "a \<in> insert x (set (array_sort cmp xs))" "b \<in> insert x (set (array_sort cmp xs))"
      "js_pos (cmp a b)"
    then show "\<not> js_pos (cmp b a)"
      by (rule consistent_on_asym [OF assms(1) mem mem])
  next
    fix a b d
    assume "a \<in> insert x (set (array_sort cmp xs))" "b \<in> insert x (set (array_sort cmp xs))"
      "d \<in> insert x (set (array_sort cmp xs))" "\<not> js_pos (cmp a b)" "\<not> js_pos (cmp b d)"
    then show "\<not> js_pos (cmp a d)"
      by (rule consistent_on_trans [OF assms(1) mem mem mem])
  next
    show "sorted_wrt (\<lambda>a b. \<not> js_pos (cmp a b)) (array_sort cmp xs)"
      using Cons by simp
  qed
  then show ?case by simp
qed

lemma sorted_array_sort:
  assumes "consistent_on cmp xs"
  shows "sorted_wrt (\<lambda>a b. \<not> js_pos (cmp a b)) (array_sort cmp xs)"
  using sorted_array_sort_aux [OF assms, of xs] by simp

lemma array_sort_keyed:
  assumes "k \<in> set (array_sort cmp (map (make_keyed bi tbl specs) rs))"
  shows "k = make_keyed bi tbl specs (fst k)"
proof -
  from assms have "k \<in> set (map (make_keyed bi tbl specs) rs)"
    by (simp only: set_array_sort)
  then obtain r where "k = make_keyed bi tbl specs r" by auto
  then show ?thesis by (simp add: make_keyed_def)
qed

lemma not_pos_sub: "\<not> js_pos (js_sub a b) \<Longrightarrow> \<not> js_less b a"
  by (cases a; cases b) (auto simp: js_pos_def)

lemma getFilteredRows_sorted:
  assumes specs: "specs = build_sortSpecs bi cols (sortOrders st)" "specs \<noteq> []"
    and rows: "rs = apply_search bi src st cols (apply_filters bi src st)"
    and cons: "consistent_on (comparator bi specs) (map (make_keyed bi (table src) specs) rs)"
    and ij: "i < j" "j < length (getFilteredRows bi src st cols)"
  shows "\<not> js_pos (comparator bi specs
                     (make_keyed bi (table src) specs (getFilteredRows bi src st cols ! i))
                     (make_keyed bi (table src) specs (getFilteredRows bi src st cols ! j)))"
proof -
  define sorted where
    "sorted = array_sort (comparator bi specs) (map (make_keyed bi (table src) specs) rs)"
  have out: "getFilteredRows bi src st cols = map fst sorted"
    using specs rows by (simp add: getFilteredRows_def apply_sort_def Let_def sorted_def)
  have len: "j < length sorted" "i < length sorted"
    using ij out by simp_all
  have oi: "getFilteredRows bi src st cols ! i = fst (sorted ! i)"
    and oj: "getFilteredRows bi src st cols ! j = fst (sorted ! j)"
    using len out by simp_all
  have ki: "sorted ! i = make_keyed bi (table src) specs (fst (sorted ! i))"
    using array_sort_keyed [of "sorted ! i" "comparator bi specs" bi "table src" specs rs] len
    by (simp add: sorted_def)
  have kj: "sorted ! j = make_keyed bi (table src) specs (fst (sorted ! j))"
    using array_sort_keyed [of "sorted ! j" "comparator bi specs" bi "table src" specs rs] len
    by (simp add: sorted_def)
  have "sorted_wrt (\<lambda>a b. \<not> js_pos (comparator bi specs a b)) sorted"
    unfolding sorted_def by (rule sorted_array_sort [OF cons])
  then have "\<not> js_pos (comparator bi specs (sorted ! i) (sorted ! j))"
    using ij(1) len(1) by (simp add: sorted_wrt_iff_nth_less)
  then show ?thesis using ki kj by (simp add: oi oj)
qed

text \<open>
  The comparator is consistent, for one, on rows whose sort values are all null or finite
  numbers: it orders them as their ranks are ordered.
\<close>

lemma dirMult_cases: "dirMult bi order = Fin 1 \<or> dirMult bi order = Fin (- 1)"
  by (simp add: dirMult_def Let_def)

lemma build_sortSpecs_dirs:
  "list_all (\<lambda>spec. snd spec = Fin 1 \<or> snd spec = Fin (- 1)) (build_sortSpecs bi cols orders)"
  by (induction orders) (auto simp: dirMult_cases split: option.splits)

lemma numeric_key_cases:
  assumes "numeric_key k"
  obtains "k = KNull" | x where "k = KNum (Fin x)"
  using assms by (auto simp: numeric_key_def split: sort_key.splits jsnum.splits)

lemma compare_key_rank:
  assumes "numeric_key ka" "numeric_key kb" "dir = Fin 1 \<or> dir = Fin (- 1)"
  shows "(compare_key bi dir ka kb = None \<longrightarrow> key_rank dir ka = key_rank dir kb)
         \<and> (\<forall>v. compare_key bi dir ka kb = Some v \<longrightarrow>
               (js_pos v \<longleftrightarrow> key_rank dir kb < key_rank dir ka)
               \<and> (js_neg v \<longleftrightarrow> key_rank dir ka < key_rank dir kb)
               \<and> key_rank dir ka \<noteq> key_rank dir kb)"
proof (rule numeric_key_cases [OF assms(1)]; rule numeric_key_cases [OF assms(2)])
  assume "ka = KNull" "kb = KNull"
  then show ?thesis by (simp add: compare_key_def key_rank_def)
next
  fix y assume "ka = KNull" "kb = KNum (Fin y)"
  then show ?thesis by (simp add: compare_key_def key_rank_def js_pos_def js_neg_def)
next
  fix x assume "ka = KNum (Fin x)" "kb = KNull"
  then show ?thesis by (simp add: compare_key_def key_rank_def js_pos_def js_neg_def)
next
  fix x y assume k: "ka = KNum (Fin x)" "kb = KNum (Fin y)"
  from assms(3) show ?thesis
  proof
    assume "dir = Fin 1"
    then show ?thesis using k
      by (auto simp: compare_key_def compare_number_def key_rank_def js_pos_def js_neg_def Let_def)
  next
    assume "dir = Fin (- 1)"
    then show ?thesis using k
      by (auto simp: compare_key_def compare_number_def key_rank_def js_pos_def js_neg_def Let_def)
  qed
qed


lemma compare_keys_rank:
  assumes "length kas = length specs" "length kbs = length specs"
    and "list_all numeric_key kas" "list_all numeric_key kbs"
    and "list_all (\<lambda>spec. snd spec = Fin 1 \<or> snd spec = Fin (- 1)) specs"
  shows "(compare_keys bi specs kas kbs = None \<longrightarrow>
            (row_ranks specs kbs ib < row_ranks specs kas ia \<longleftrightarrow> ib < ia)
            \<and> (row_ranks specs kas ia < row_ranks specs kbs ib \<longleftrightarrow> ia < ib))
         \<and> (\<forall>v. compare_keys bi specs kas kbs = Some v \<longrightarrow>
               (js_pos v \<longleftrightarrow> row_ranks specs kbs ib < row_ranks specs kas ia)
               \<and> (js_neg v \<longleftrightarrow> row_ranks specs kas ia < row_ranks specs kbs ib))"
  using assms
proof (induction specs arbitrary: kas kbs)
  case Nil
  then show ?case by simp
next
  case (Cons spec specs)
  from Cons.prems(1,2) obtain ka kas' kb kbs'
    where e: "kas = ka # kas'" "kbs = kb # kbs'"
    by (cases kas; cases kbs) auto
  have l: "length kas' = length specs" "length kbs' = length specs"
    using Cons.prems(1,2) e by simp_all
  have n: "list_all numeric_key kas'" "list_all numeric_key kbs'"
    "numeric_key ka" "numeric_key kb"
    using Cons.prems(3,4) e by simp_all
  have d: "list_all (\<lambda>spec. snd spec = Fin 1 \<or> snd spec = Fin (- 1)) specs"
    "snd spec = Fin 1 \<or> snd spec = Fin (- 1)"
    using Cons.prems(5) by simp_all
  note ih = Cons.IH [OF l n(1,2) d(1)]
  note step = compare_key_rank [OF n(3,4) d(2), of bi]
  show ?case
  proof (cases "compare_key bi (snd spec) ka kb")
    case None
    then have "key_rank (snd spec) ka = key_rank (snd spec) kb" using step by simp
    then show ?thesis using None e ih by simp
  next
    case (Some v)
    then show ?thesis using e step by auto
  qed
qed

lemma comparator_rank:
  assumes "plain_keyed specs a" "plain_keyed specs b"
    and "list_all (\<lambda>spec. snd spec = Fin 1 \<or> snd spec = Fin (- 1)) specs"
  shows "js_pos (comparator bi specs a b) \<longleftrightarrow> rank_of specs b < rank_of specs a"
    and "js_neg (comparator bi specs a b) \<longleftrightarrow> rank_of specs a < rank_of specs b"
proof -
  obtain ia ib where i: "dt_index (fst a) = Fin ia" "dt_index (fst b) = Fin ib"
    using assms(1,2) by (auto simp: plain_keyed_def finite_index_def split: jsnum.splits)
  have r: "rank_of specs a = row_ranks specs (snd a) ia" "rank_of specs b = row_ranks specs (snd b) ib"
    using i by (simp_all add: rank_of_def finite_index_def)
  have k: "length (snd a) = length specs" "length (snd b) = length specs"
    "list_all numeric_key (snd a)" "list_all numeric_key (snd b)"
    using assms(1,2) by (simp_all add: plain_keyed_def)
  note c = compare_keys_rank [OF k assms(3), of bi ib ia]
  show "js_pos (comparator bi specs a b) \<longleftrightarrow> rank_of specs b < rank_of specs a"
  proof (cases "compare_keys bi specs (snd a) (snd b)")
    case None
    then show ?thesis using c i r by (simp add: comparator_def js_pos_def)
  next
    case (Some v)
    then show ?thesis using c r by (simp add: comparator_def)
  qed
  show "js_neg (comparator bi specs a b) \<longleftrightarrow> rank_of specs a < rank_of specs b"
  proof (cases "compare_keys bi specs (snd a) (snd b)")
    case None
    then show ?thesis using c i r by (simp add: comparator_def js_neg_def)
  next
    case (Some v)
    then show ?thesis using c r by (simp add: comparator_def)
  qed
qed

lemma numeric_columns_consistent:
  assumes "list_all (plain_keyed specs) keyed"
    and "list_all (\<lambda>spec. snd spec = Fin 1 \<or> snd spec = Fin (- 1)) specs"
  shows "consistent_on (comparator bi specs) keyed"
proof -
  have p: "plain_keyed specs a" if "a \<in> set keyed" for a
    using assms(1) that by (simp add: list_all_iff)
  have anti: "js_pos (comparator bi specs a b) \<longleftrightarrow> js_neg (comparator bi specs b a)"
    if "a \<in> set keyed" "b \<in> set keyed" for a b
    using comparator_rank(1) [OF p [OF that(1)] p [OF that(2)] assms(2), of bi]
      comparator_rank(2) [OF p [OF that(2)] p [OF that(1)] assms(2), of bi]
    by simp
  have tr: "\<not> js_pos (comparator bi specs a d)"
    if "a \<in> set keyed" "b \<in> set keyed" "d \<in> set keyed"
      "\<not> js_pos (comparator bi specs a b)" "\<not> js_pos (comparator bi specs b d)" for a b d
  proof -
    have "rank_of specs a \<le> rank_of specs b"
      using comparator_rank(1) [OF p [OF that(1)] p [OF that(2)] assms(2), of bi] that(4)
      by (simp add: not_less)
    moreover have "rank_of specs b \<le> rank_of specs d"
      using comparator_rank(1) [OF p [OF that(2)] p [OF that(3)] assms(2), of bi] that(5)
      by (simp add: not_less)
    ultimately have "rank_of specs a \<le> rank_of specs d" by (rule order_trans)
    then show ?thesis
      using comparator_rank(1) [OF p [OF that(1)] p [OF that(3)] assms(2), of bi]
      by (simp add: not_less)
  qed
  show ?thesis
    unfolding consistent_on_def list_all_iff
    using anti tr by blast
qed

text \<open>
  Claim C1, as amended. When at least one sort spec is active and the comparator is
  consistent on the rows being sorted, any two rows between which the comparator finds no
  difference on any spec (both values null, a numeric or date difference of exactly 0, or
  \<open>localeCompare\<close> giving 0) come out in ascending order of \<open>__dt_index\<close>: the later of
  the two never has the smaller index.
\<close>
theorem equal_keys_keep_index_order:
  assumes specs: "specs = build_sortSpecs bi cols (sortOrders st)" "specs \<noteq> []"
    and rows: "rs = apply_search bi src st cols (apply_filters bi src st)"
    and cons: "consistent_on (comparator bi specs) (map (make_keyed bi (table src) specs) rs)"
    and ij: "i < j" "j < length (getFilteredRows bi src st cols)"
    and tie: "compare_keys bi specs
                (snd (make_keyed bi (table src) specs (getFilteredRows bi src st cols ! i)))
                (snd (make_keyed bi (table src) specs (getFilteredRows bi src st cols ! j))) = None"
  shows "\<not> js_less (dt_index (getFilteredRows bi src st cols ! j))
                    (dt_index (getFilteredRows bi src st cols ! i))"
proof -
  let ?a = "make_keyed bi (table src) specs (getFilteredRows bi src st cols ! i)"
  let ?b = "make_keyed bi (table src) specs (getFilteredRows bi src st cols ! j)"
  have np: "\<not> js_pos (comparator bi specs ?a ?b)"
    by (rule getFilteredRows_sorted [OF specs rows cons ij])
  have f: "fst ?a = getFilteredRows bi src st cols ! i" "fst ?b = getFilteredRows bi src st cols ! j"
    by (simp_all add: make_keyed_def)
  have "comparator bi specs ?a ?b = js_sub (dt_index (fst ?a)) (dt_index (fst ?b))"
    unfolding comparator_def using tie by simp
  then have "\<not> js_pos (js_sub (dt_index (getFilteredRows bi src st cols ! i))
                               (dt_index (getFilteredRows bi src st cols ! j)))"
    using np f by simp
  then show ?thesis by (rule not_pos_sub)
qed

theorem equal_keys_keep_index_order_witness:
  "consistent_on (comparator ex_builtins (build_sortSpecs ex_builtins people_columns (sortOrders by_age)))
     (map (make_keyed ex_builtins (table people)
             (build_sortSpecs ex_builtins people_columns (sortOrders by_age)))
          (apply_search ex_builtins people by_age people_columns
             (apply_filters ex_builtins people by_age)))
   \<and> map (\<lambda>r. row_get r ''name'') (getFilteredRows ex_builtins people by_age people_columns)
       = [Str ''ann'', Str ''cid'', Str ''bob'']
   \<and> dt_index (getFilteredRows ex_builtins people by_age people_columns ! 0) = Fin 1
   \<and> dt_index (getFilteredRows ex_builtins people by_age people_columns ! 1) = Fin 2
   \<and> \<not> js_less (dt_index (getFilteredRows ex_builtins people by_age people_columns ! 1))
                 (dt_index (getFilteredRows ex_builtins people by_age people_columns ! 0))"
proof -
  have s: "build_sortSpecs ex_builtins people_columns (sortOrders by_age) \<noteq> []"
    by code_simp
  have c: "consistent_on (comparator ex_builtins (build_sortSpecs ex_builtins people_columns (sortOrders by_age)))
     (map (make_keyed ex_builtins (table people)
             (build_sortSpecs ex_builtins people_columns (sortOrders by_age)))
          (apply_search ex_builtins people by_age people_columns
             (apply_filters ex_builtins people by_age)))"
    by code_simp
  have l: "(0::nat) < 1" "1 < length (getFilteredRows ex_builtins people by_age people_columns)"
    by code_simp+
  have t: "compare_keys ex_builtins (build_sortSpecs ex_builtins people_columns (sortOrders by_age))
                (snd (make_keyed ex_builtins (table people)
                        (build_sortSpecs ex_builtins people_columns (sortOrders by_age))
                        (getFilteredRows ex_builtins people by_age people_columns ! 0)))
                (snd (make_keyed ex_builtins (table people)
                        (build_sortSpecs ex_builtins people_columns (sortOrders by_age))
                        (getFilteredRows ex_builtins people by_age people_columns ! 1))) = None"
    by code_simp
  have n: "map (\<lambda>r. row_get r ''name'') (getFilteredRows ex_builtins people by_age people_columns)
       = [Str ''ann'', Str ''cid'', Str ''bob'']"
    by code_simp
  have d: "dt_index (getFilteredRows ex_builtins people by_age people_columns ! 0) = Fin 1"
    "dt_index (getFilteredRows ex_builtins people by_age people_columns ! 1) = Fin 2"
    by code_simp+
  show ?thesis
    using equal_keys_keep_index_order [OF refl s refl c l t] c n d by simp
qed

text \<open>
  Claim C1 as it was stated fails for two rows whose sort value is \<open>Infinity\<close>, given to
  a source that has seen them before in the opposite order. Their difference is NaN, which
  is not \<open>=== 0\<close>, so the comparator returns NaN without reaching the index; the sort
  reads NaN as equal and leaves the two rows as they came, the row with index 1 before the
  row with index 0.
\<close>

theorem equal_infinite_keys_out_of_index_order:
  "make_key ex_builtins (table seen_again) (ex_column ''v'')
       (getFilteredRows ex_builtins seen_again by_v v_columns ! 0) = KNum PInf
   \<and> make_key ex_builtins (table seen_again) (ex_column ''v'')
       (getFilteredRows ex_builtins seen_again by_v v_columns ! 1) = KNum PInf
   \<and> row_get (getFilteredRows ex_builtins seen_again by_v v_columns ! 0) ''name'' = Str ''b''
   \<and> row_get (getFilteredRows ex_builtins seen_again by_v v_columns ! 1) ''name'' = Str ''a''
   \<and> dt_index (getFilteredRows ex_builtins seen_again by_v v_columns ! 0) = Fin 1
   \<and> dt_index (getFilteredRows ex_builtins seen_again by_v v_columns ! 1) = Fin 0
   \<and> js_less (dt_index (getFilteredRows ex_builtins seen_again by_v v_columns ! 1))
              (dt_index (getFilteredRows ex_builtins seen_again by_v v_columns ! 0))"
  by code_simp

text \<open>
  The hypothesis of consistency cannot be dropped. In a column that holds \<open>2\<close>, \<open>10\<close>
  and \<open>1a\<close> the comparator runs in a circle (2 before 10 as numbers, \<open>10\<close> before
  \<open>1a\<close> and \<open>1a\<close> before \<open>2\<close> as text), and the sort can then leave two rows with
  the value 2 against the order of their indexes.
\<close>

lemma mixed_column_out_of_index_order:
  "\<not> consistent_on (comparator ex_builtins (build_sortSpecs ex_builtins v_columns (sortOrders by_v)))
       (map (make_keyed ex_builtins (table mixed_again)
               (build_sortSpecs ex_builtins v_columns (sortOrders by_v)))
            (original mixed_again))
   \<and> map (\<lambda>r. row_get r ''name'') (getFilteredRows ex_builtins mixed_again by_v v_columns)
       = [Str ''x'', Str ''y'', Str ''z'', Str ''t'']
   \<and> make_key ex_builtins None (ex_column ''v'')
        (getFilteredRows ex_builtins mixed_again by_v v_columns ! 0) = KNum (Fin 2)
   \<and> make_key ex_builtins None (ex_column ''v'')
        (getFilteredRows ex_builtins mixed_again by_v v_columns ! 3) = KNum (Fin 2)
   \<and> dt_index (getFilteredRows ex_builtins mixed_again by_v v_columns ! 0) = Fin 1
   \<and> dt_index (getFilteredRows ex_builtins mixed_again by_v v_columns ! 3) = Fin 0"
  by code_simp

lemma compare_keys_upto:
  assumes "i < length specs" "i < length kas" "i < length kbs"
    and "compare_keys bi (take i specs) (take i kas) (take i kbs) = None"
    and "compare_key bi (snd (specs ! i)) (kas ! i) (kbs ! i) = Some v"
  shows "compare_keys bi specs kas kbs = Some v"
  using assms
proof (induction i arbitrary: specs kas kbs)
  case 0
  then obtain s ss a as b bs where "specs = s # ss" "kas = a # as" "kbs = b # bs"
    by (cases specs; cases kas; cases kbs) auto
  then show ?case using "0.prems"(5) by simp
next
  case (Suc i)
  from Suc.prems(1,2,3) obtain s ss a as b bs
    where e: "specs = s # ss" "kas = a # as" "kbs = b # bs"
    by (cases specs; cases kas; cases kbs) auto
  have l: "i < length ss" "i < length as" "i < length bs"
    using Suc.prems(1,2,3) e by simp_all
  have h: "compare_key bi (snd s) a b = None"
    using Suc.prems(4) e by (simp split: option.splits)
  have r: "compare_keys bi (take i ss) (take i as) (take i bs) = None"
    using Suc.prems(4) e h by simp
  have v: "compare_key bi (snd (ss ! i)) (as ! i) (bs ! i) = Some v"
    using Suc.prems(5) e by simp
  show ?case
    using Suc.IH [OF l r v] e h by simp
qed

lemma compare_key_null:
  "kb \<noteq> KNull \<Longrightarrow> compare_key bi dir KNull kb = Some (Fin 1)"
  "kb \<noteq> KNull \<Longrightarrow> compare_key bi dir kb KNull = Some (Fin (- 1))"
  by (simp_all add: compare_key_def)

text \<open>
  Claim C6. A row's key for a spec is null exactly when its resolved value is null or
  missing. When the comparator reaches a spec (the earlier specs found no difference) at
  which one row has a null key and the other has not, it returns 1 with the null row as
  first argument and -1 with the null row as second argument, whatever the direction of
  the spec: the row with the null value is placed after the other one.
\<close>

theorem null_sorts_last:
  assumes "i < length specs" "i < length kas" "i < length kbs"
    and "kas ! i = KNull" "kbs ! i \<noteq> KNull"
  shows "(compare_keys bi (take i specs) (take i kas) (take i kbs) = None
            \<longrightarrow> comparator bi specs (ra, kas) (rb, kbs) = Fin 1)
         \<and> (compare_keys bi (take i specs) (take i kbs) (take i kas) = None
            \<longrightarrow> comparator bi specs (rb, kbs) (ra, kas) = Fin (- 1))
         \<and> (make_key bi tbl col r = KNull \<longleftrightarrow> nullish (getValue tbl col r ''sort''))"
proof -
  have a: "comparator bi specs (ra, kas) (rb, kbs) = Fin 1"
    if "compare_keys bi (take i specs) (take i kas) (take i kbs) = None"
    using compare_keys_upto [OF assms(1,2,3) that, of "Fin 1"] assms(4,5)
    by (simp add: comparator_def compare_key_null)
  have b: "comparator bi specs (rb, kbs) (ra, kas) = Fin (- 1)"
    if "compare_keys bi (take i specs) (take i kbs) (take i kas) = None"
    using compare_keys_upto [OF assms(1,3,2) that, of "Fin (- 1)"] assms(4,5)
    by (simp add: comparator_def compare_key_null)
  have c: "make_key bi tbl col r = KNull \<longleftrightarrow> nullish (getValue tbl col r ''sort'')"
    by (simp add: make_key_def Let_def)
  show ?thesis using a b c by blast
qed

theorem null_sorts_last_witness:
  "make_key ex_builtins None (ex_column ''age'') dan = KNull
   \<and> make_key ex_builtins None (ex_column ''age'') bob = KNum (Fin 30)
   \<and> comparator ex_builtins [(ex_column ''age'', Fin (- 1))] (dan, [KNull]) (bob, [KNum (Fin 30)]) = Fin 1
   \<and> comparator ex_builtins [(ex_column ''age'', Fin 1)] (dan, [KNull]) (bob, [KNum (Fin 30)]) = Fin 1
   \<and> comparator ex_builtins [(ex_column ''age'', Fin (- 1))] (bob, [KNum (Fin 30)]) (dan, [KNull]) = Fin (- 1)
   \<and> map (\<lambda>r. row_get r ''name'') (getFilteredRows ex_builtins people4 by_age people_columns)
       = [Str ''ann'', Str ''cid'', Str ''bob'', Str ''dan'']
   \<and> map (\<lambda>r. row_get r ''name'') (getFilteredRows ex_builtins people4 by_age_desc people_columns)
       = [Str ''bob'', Str ''ann'', Str ''cid'', Str ''dan'']"
proof -
  have k: "make_key ex_builtins None (ex_column ''age'') dan = KNull"
    "make_key ex_builtins None (ex_column ''age'') bob = KNum (Fin 30)"
    by code_simp+
  have o: "map (\<lambda>r. row_get r ''name'') (getFilteredRows ex_builtins people4 by_age people_columns)
       = [Str ''ann'', Str ''cid'', Str ''bob'', Str ''dan'']"
    "map (\<lambda>r. row_get r ''name'') (getFilteredRows ex_builtins people4 by_age_desc people_columns)
       = [Str ''bob'', Str ''ann'', Str ''cid'', Str ''dan'']"
    by code_simp+
  have h: "(0::nat) < length [(ex_column ''age'', d)]" "(0::nat) < length [KNull]"
    "(0::nat) < length [KNum (Fin 30)]" "[KNull] ! 0 = KNull" "[KNum (Fin 30)] ! 0 \<noteq> KNull"
    for d :: jsnum
    by simp_all
  show ?thesis
    using null_sorts_last [OF h, of ex_builtins "Fin (- 1)" dan bob]
      null_sorts_last [OF h, of ex_builtins "Fin 1" dan bob] k o
    by simp
qed

text \<open>
  In the output this reads: under a consistent comparator, after a row whose value for the
  first sort spec is null there are only rows whose value for that spec is null.
\<close>

lemma null_rows_come_last:
  assumes specs: "build_sortSpecs bi cols (sortOrders st) = (col, dir) # rest"
    and cons: "consistent_on (comparator bi ((col, dir) # rest))
                 (map (make_keyed bi (table src) ((col, dir) # rest))
                    (apply_search bi src st cols (apply_filters bi src st)))"
    and ij: "i < j" "j < length (getFilteredRows bi src st cols)"
    and null: "make_key bi (table src) col (getFilteredRows bi src st cols ! i) = KNull"
  shows "make_key bi (table src) col (getFilteredRows bi src st cols ! j) = KNull"
proof (rule ccontr)
  assume nn: "make_key bi (table src) col (getFilteredRows bi src st cols ! j) \<noteq> KNull"
  have "comparator bi ((col, dir) # rest)
          (make_keyed bi (table src) ((col, dir) # rest) (getFilteredRows bi src st cols ! i))
          (make_keyed bi (table src) ((col, dir) # rest) (getFilteredRows bi src st cols ! j))
        = Fin 1"
    using null nn by (simp add: comparator_def make_keyed_def compare_key_null)
  moreover have "\<not> js_pos (comparator bi ((col, dir) # rest)
          (make_keyed bi (table src) ((col, dir) # rest) (getFilteredRows bi src st cols ! i))
          (make_keyed bi (table src) ((col, dir) # rest) (getFilteredRows bi src st cols ! j)))"
    by (rule getFilteredRows_sorted [OF specs [symmetric] _ refl cons ij]) simp
  ultimately show False by (simp add: js_pos_def)
qed

end
